theory Spec2Isabelle
  imports Main "HOL-Library.Sublist" "HOL-Library.Multiset"
begin

section \<open>The einsum descriptor builder of \<^verbatim>\<open>src/einsum.h\<close>\<close>

text \<open>
  The theory embeds the class template \<^verbatim>\<open>Einsum<ComputeType, IntType, kMaxNumModes_>\<close>:
  its constructor (equation parsing, resolution of the output modes, the three descriptor
  loops), \<^verbatim>\<open>getOutputShape\<close>, the mode accessors and the dispatch of \<^verbatim>\<open>execute\<close>.

  Conventions of the embedding.
  \<^item> The template parameter \<^verbatim>\<open>kMaxNumModes_\<close> is the argument \<open>kMaxNumModes\<close> of every
    function; a member \<^verbatim>\<open>x_\<close> of the class is the record field \<open>x_m\<close>.
  \<^item> Extents and strides are only copied, never computed with, so \<^verbatim>\<open>IntType\<close> and
    \<^verbatim>\<open>int64_t\<close> are \<open>int\<close>. Counters are \<open>nat\<close>: a shape vector is taken to have fewer
    than \<open>2 ^ 32\<close> entries and an equation fewer than \<open>2 ^ 31\<close> characters, so that neither
    \<^verbatim>\<open>uint32_t\<close> nor the \<^verbatim>\<open>int\<close> loop index wraps.
  \<^item> A \<^verbatim>\<open>std::array\<close> member is a list of \<open>kMaxNumModes\<close> cells, each \<open>None\<close> until the
    constructor has written it (the members have no initialiser). The mode arrays hold
    \<^verbatim>\<open>int\<close> in the source, always converted from a \<^verbatim>\<open>char\<close> and back; the model keeps
    the \<open>char\<close>.
  \<^item> A local buffer \<^verbatim>\<open>char mode[kMaxNumModes_ + 2]\<close> with its fill counter is the list of
    the characters written so far.
  \<^item> Every \<^verbatim>\<open>throw\<close> is an \<open>Inl\<close> result.
  \<^item> \<^verbatim>\<open>operator[]\<close> checks nothing, and an access through it outside the container is
    undefined behaviour in C++. The constructor goes on after such an access, and so does the
    model: a read outside gives \<open>None\<close>, a value nobody knows; a store outside leaves the
    container as it is (what it hits in memory is not modelled); and the access is put on
    record in the field \<open>out_of_bounds\<close>, which is not a member of the class.
\<close>

subsection \<open>Backend calls and errors\<close>

text \<open>The calls \<^verbatim>\<open>execute\<close> makes to the tensor library, with the descriptor data they are
  given. The handle, the device pointers, the workspace and the stream are opaque and left
  out.\<close>

datatype tensor = TensorA | TensorB | TensorC

datatype backend_call =
    cutensorInitTensorDescriptor tensor nat "int option list" "int option list"
  | cutensorGetAlignmentRequirement tensor
  | cutensorInitContractionDescriptor "char option list" "char option list" "char option list"
  | cutensorInitContractionFind
  | cutensorContractionFindSetAttribute string
  | cutensorInitContractionPlan
  | cutensorContraction
  | cutensorReduction "char option list" "char option list"

datatype error =
    BroadcastNotSupported   \<comment> \<open>\<^verbatim>\<open>TORCH_CHECK\<close>: "Broadcast einsum with ... is not supported."\<close>
  | ModesShapeMismatchA     \<comment> \<open>"modes substring for first operand and shape don't match."\<close>
  | ModesShapeMismatchB     \<comment> \<open>"modes substring for second operand and shape don't match."\<close>
  | TooManyModesA           \<comment> \<open>"too many modes in first operand."\<close>
  | TooManyModesB           \<comment> \<open>"too many modes in second operand."\<close>
  | TooManyModesOutput      \<comment> \<open>"too many modes in output tensor."\<close>
  | OutOfRange string       \<comment> \<open>\<^verbatim>\<open>std::out_of_range\<close> thrown by \<^verbatim>\<open>at\<close>\<close>
  | BackendError backend_call  \<comment> \<open>\<^verbatim>\<open>HANDLE_ERROR\<close>: this backend call did not succeed\<close>

text \<open>What the specification calls a ParseError.\<close>

definition ParseError :: "error \<Rightarrow> bool" where
  "ParseError e =
     (e = BroadcastNotSupported \<or> e = ModesShapeMismatchA \<or> e = ModesShapeMismatchB \<or>
      e = TooManyModesA \<or> e = TooManyModesB \<or> e = TooManyModesOutput)"

definition bindE :: "error + 'a \<Rightarrow> ('a \<Rightarrow> error + 'b) \<Rightarrow> error + 'b" where
  "bindE m f = (case m of Inl e \<Rightarrow> Inl e | Inr x \<Rightarrow> f x)"

subsection \<open>The object\<close>

record einsum =
  numModesA_m :: nat
  numModesB_m :: nat
  numModesC_m :: nat
  isInitialized_m :: bool
  modesA_m :: "char option list"
  modesB_m :: "char option list"
  modesC_m :: "char option list"
  extentA_m :: "int option list"
  extentB_m :: "int option list"
  extentC_m :: "int option list"
  stridesA_m :: "int option list"
  stridesB_m :: "int option list"
  out_of_bounds :: "(string \<times> nat) list"

text \<open>The member initialiser list (lines 93 to 96); the arrays are not initialised, and no
  access has left a container yet.\<close>

definition init :: "nat \<Rightarrow> int list \<Rightarrow> int list \<Rightarrow> einsum" where
  "init kMaxNumModes A_shape B_shape =
     \<lparr>numModesA_m = length A_shape,
      numModesB_m = length B_shape,
      numModesC_m = 0,
      isInitialized_m = False,
      modesA_m = replicate kMaxNumModes None,
      modesB_m = replicate kMaxNumModes None,
      modesC_m = replicate kMaxNumModes None,
      extentA_m = replicate kMaxNumModes None,
      extentB_m = replicate kMaxNumModes None,
      extentC_m = replicate kMaxNumModes None,
      stridesA_m = replicate kMaxNumModes None,
      stridesB_m = replicate kMaxNumModes None,
      out_of_bounds = []\<rparr>"

subsection \<open>Container accesses\<close>

text \<open>An access outside the container \<open>name\<close> at index \<open>i\<close> goes on record.\<close>

definition outside :: "string \<Rightarrow> nat \<Rightarrow> einsum \<Rightarrow> einsum" where
  "outside name i s = s\<lparr>out_of_bounds := out_of_bounds s @ [(name, i)]\<rparr>"

text \<open>\<^verbatim>\<open>v[i]\<close> read from a vector or a local buffer of values: the value inside, \<open>None\<close>
  outside.\<close>

definition rd :: "string \<Rightarrow> 'a list \<Rightarrow> nat \<Rightarrow> einsum \<Rightarrow> 'a option \<times> einsum" where
  "rd name xs i s = (if i < length xs then (Some (xs ! i), s) else (None, outside name i s))"

text \<open>\<^verbatim>\<open>a[i]\<close> read from a member array: the cell inside, \<open>None\<close> outside.\<close>

definition rd_cell :: "string \<Rightarrow> 'a option list \<Rightarrow> nat \<Rightarrow> einsum \<Rightarrow> 'a option \<times> einsum" where
  "rd_cell name xs i s = (if i < length xs then (xs ! i, s) else (None, outside name i s))"

text \<open>\<^verbatim>\<open>a[i] = v\<close> on a member array: the cell is written inside; outside the array stays as
  it is.\<close>

definition wr ::
  "string \<Rightarrow> 'a option list \<Rightarrow> nat \<Rightarrow> 'a option \<Rightarrow> einsum \<Rightarrow> 'a option list \<times> einsum" where
  "wr name xs i v s = (if i < length xs then (xs[i := v], s) else (xs, outside name i s))"

text \<open>\<^verbatim>\<open>a.at(i)\<close> checks the index and throws.\<close>

definition at :: "string \<Rightarrow> 'a list \<Rightarrow> nat \<Rightarrow> error + 'a" where
  "at name xs i = (if i < length xs then Inr (xs ! i) else Inl (OutOfRange name))"

subsection \<open>The equation string\<close>

text \<open>\<^verbatim>\<open>std::string::find\<close>: the least position at which the pattern occurs, \<open>None\<close> for
  \<^verbatim>\<open>npos\<close>.\<close>

fun string_find :: "string \<Rightarrow> string \<Rightarrow> nat option" where
  "string_find pat [] = (if pat = [] then Some 0 else None)"
| "string_find pat (c # cs) =
     (if prefix pat (c # cs) then Some 0 else map_option Suc (string_find pat cs))"

definition arrow_pos :: "string \<Rightarrow> nat option" where
  "arrow_pos equation = string_find ''->'' equation"

definition comma_pos :: "string \<Rightarrow> nat option" where
  "comma_pos equation = string_find '','' equation"

definition dots :: "string \<Rightarrow> nat option" where
  "dots equation = string_find ''...'' equation"

definition isImplicit :: "string \<Rightarrow> bool" where
  "isImplicit equation = (arrow_pos equation = None)"

definition usesB :: "string \<Rightarrow> bool" where
  "usesB equation = (comma_pos equation \<noteq> None)"

text \<open>The six segment bounds (lines 111 to 117).\<close>

definition a_start :: "string \<Rightarrow> nat" where
  "a_start equation = 0"

definition a_end :: "string \<Rightarrow> nat" where
  "a_end equation =
     (case arrow_pos equation of
        None \<Rightarrow> (case comma_pos equation of None \<Rightarrow> length equation | Some c \<Rightarrow> c)
      | Some a \<Rightarrow> (case comma_pos equation of None \<Rightarrow> a | Some c \<Rightarrow> c))"

definition b_start :: "string \<Rightarrow> nat" where
  "b_start equation = (case comma_pos equation of Some c \<Rightarrow> c + 1 | None \<Rightarrow> 0)"

definition b_end :: "string \<Rightarrow> nat" where
  "b_end equation =
     (if usesB equation
      then (case arrow_pos equation of None \<Rightarrow> length equation | Some a \<Rightarrow> a)
      else 0)"

definition c_start :: "string \<Rightarrow> nat" where
  "c_start equation = (case arrow_pos equation of None \<Rightarrow> length equation | Some a \<Rightarrow> a + 2)"

definition c_end :: "string \<Rightarrow> nat" where
  "c_end equation = length equation"

text \<open>The extraction loop (lines 122 to 127, and its two copies): from position \<open>i\<close> up to
  \<open>e\<close>, while the buffer holds fewer than \<open>kMaxNumModes + 2\<close> characters, every character
  other than the space is appended.\<close>

function extract_modes :: "nat \<Rightarrow> string \<Rightarrow> nat \<Rightarrow> nat \<Rightarrow> string \<Rightarrow> error + string" where
  "extract_modes kMaxNumModes equation i e mode =
     (if i < e \<and> length mode < kMaxNumModes + 2 then
        (case at ''equation'' equation i of
           Inl err \<Rightarrow> Inl err
         | Inr ch \<Rightarrow>
             if ch \<noteq> CHR '' ''
             then extract_modes kMaxNumModes equation (i + 1) e (mode @ [ch])
             else extract_modes kMaxNumModes equation (i + 1) e mode)
      else Inr mode)"
  by pat_completeness auto
termination
  by (relation "measure (\<lambda>(k, eq, i, e, m). e - i)") auto

declare extract_modes.simps [simp del]

text \<open>The three extractions of the constructor (lines 120 to 145).\<close>

definition extract_modeA :: "nat \<Rightarrow> string \<Rightarrow> error + string" where
  "extract_modeA kMaxNumModes equation =
     extract_modes kMaxNumModes equation (a_start equation) (a_end equation) []"

definition extract_modeB :: "nat \<Rightarrow> string \<Rightarrow> error + string" where
  "extract_modeB kMaxNumModes equation =
     extract_modes kMaxNumModes equation (b_start equation) (b_end equation) []"

definition extract_modeC :: "nat \<Rightarrow> string \<Rightarrow> error + string" where
  "extract_modeC kMaxNumModes equation =
     extract_modes kMaxNumModes equation (c_start equation) (c_end equation) []"

subsection \<open>Resolution of the output modes\<close>

text \<open>The inner loop of \<^verbatim>\<open>copyModesIf\<close> (lines 172 to 179): is \<open>mode\<close> among the modes of
  the other operand?\<close>

fun found_in :: "char \<Rightarrow> string \<Rightarrow> bool" where
  "found_in mode [] = False"
| "found_in mode (b # modeB) = (if mode = b then True else found_in mode modeB)"

text \<open>\<^verbatim>\<open>copyModesIf\<close> (lines 165 to 191): the first argument is walked from index 0; a mode
  not found in \<open>modeB\<close> is stored at the end of \<open>modeC\<close>, and the count is checked after the
  store.\<close>

fun copyModesIf :: "nat \<Rightarrow> string \<Rightarrow> string \<Rightarrow> string \<Rightarrow> error + string" where
  "copyModesIf kMaxNumModes [] modeB modeC = Inr modeC"
| "copyModesIf kMaxNumModes (mode # modeA) modeB modeC =
     (if \<not> found_in mode modeB
      then (let modeC' = modeC @ [mode]
            in if length modeC' > kMaxNumModes then Inl TooManyModesOutput
               else copyModesIf kMaxNumModes modeA modeB modeC')
      else copyModesIf kMaxNumModes modeA modeB modeC)"

text \<open>\<^verbatim>\<open>std::sort\<close> on a range of \<^verbatim>\<open>char\<close> compares with \<^verbatim>\<open><\<close> on \<^verbatim>\<open>char\<close>, which is a
  signed type on some platforms and an unsigned one on others; \<open>signed_char\<close> says which.
  Distinct characters have distinct values, so the sorted range is unique.\<close>

definition char_value :: "bool \<Rightarrow> char \<Rightarrow> int" where
  "char_value signed_char c =
     (let n = int (of_char c)
      in if signed_char \<and> 128 \<le> n then n - 256 else n)"

definition std_sort :: "bool \<Rightarrow> string \<Rightarrow> string" where
  "std_sort signed_char modes = sort_key (char_value signed_char) modes"

text \<open>Lines 194 to 210: the output modes the descriptor loop reads (\<^verbatim>\<open>redirectModeC\<close>, with
  \<^verbatim>\<open>numModesC_\<close> its length). In the implicit case the buffer has \<open>kMaxNumModes + 1\<close> cells
  and \<^verbatim>\<open>copyModesIf\<close> throws once more than \<open>kMaxNumModes\<close> are filled, so the stores and the
  terminating NUL stay inside it; the NUL is never read.\<close>

definition redirectModeC ::
  "nat \<Rightarrow> bool \<Rightarrow> bool \<Rightarrow> string \<Rightarrow> string \<Rightarrow> string \<Rightarrow> error + string" where
  "redirectModeC kMaxNumModes signed_char implicit modeA modeB modeC =
     (if implicit then
        bindE (copyModesIf kMaxNumModes modeA modeB []) (\<lambda>c1.
        bindE (copyModesIf kMaxNumModes modeB modeA c1) (\<lambda>c2.
        Inr (std_sort signed_char c2)))
      else Inr modeC)"

subsection \<open>The descriptor loops\<close>

text \<open>Lines 212 to 217: modes, extents and strides of the first operand, index by index.
  \<open>copyA_body\<close> is one pass through the loop body; the bound \<open>n\<close> is \<^verbatim>\<open>numModesA_\<close>, which
  the loop does not change.\<close>

definition copyA_body :: "nat \<Rightarrow> string \<Rightarrow> int list \<Rightarrow> int list \<Rightarrow> einsum \<Rightarrow> einsum" where
  "copyA_body i modeA A_shape A_strides s =
     (let (m, s1) = rd ''modeA'' modeA i s;
          (ms, s2) = wr ''modesA_'' (modesA_m s1) i m s1;
          s3 = s2\<lparr>modesA_m := ms\<rparr>;
          (ext, s4) = rd ''A_shape'' A_shape i s3;
          (es, s5) = wr ''extentA_'' (extentA_m s4) i ext s4;
          s6 = s5\<lparr>extentA_m := es\<rparr>;
          (str, s7) = rd ''A_strides'' A_strides i s6;
          (ss, s8) = wr ''stridesA_'' (stridesA_m s7) i str s7
      in s8\<lparr>stridesA_m := ss\<rparr>)"

function copyA :: "nat \<Rightarrow> nat \<Rightarrow> string \<Rightarrow> int list \<Rightarrow> int list \<Rightarrow> einsum \<Rightarrow> einsum" where
  "copyA i n modeA A_shape A_strides s =
     (if i < n then copyA (i + 1) n modeA A_shape A_strides (copyA_body i modeA A_shape A_strides s)
      else s)"
  by pat_completeness auto
termination
  by (relation "measure (\<lambda>(i, n, m, sh, st, s). n - i)") auto

text \<open>Lines 219 to 224: the same for the second operand, up to \<^verbatim>\<open>numModesB_\<close>.\<close>

definition copyB_body :: "nat \<Rightarrow> string \<Rightarrow> int list \<Rightarrow> int list \<Rightarrow> einsum \<Rightarrow> einsum" where
  "copyB_body i modeB B_shape B_strides s =
     (let (m, s1) = rd ''modeB'' modeB i s;
          (ms, s2) = wr ''modesB_'' (modesB_m s1) i m s1;
          s3 = s2\<lparr>modesB_m := ms\<rparr>;
          (ext, s4) = rd ''B_shape'' B_shape i s3;
          (es, s5) = wr ''extentB_'' (extentB_m s4) i ext s4;
          s6 = s5\<lparr>extentB_m := es\<rparr>;
          (str, s7) = rd ''B_strides'' B_strides i s6;
          (ss, s8) = wr ''stridesB_'' (stridesB_m s7) i str s7
      in s8\<lparr>stridesB_m := ss\<rparr>)"

function copyB :: "nat \<Rightarrow> nat \<Rightarrow> string \<Rightarrow> int list \<Rightarrow> int list \<Rightarrow> einsum \<Rightarrow> einsum" where
  "copyB i n modeB B_shape B_strides s =
     (if i < n then copyB (i + 1) n modeB B_shape B_strides (copyB_body i modeB B_shape B_strides s)
      else s)"
  by pat_completeness auto
termination
  by (relation "measure (\<lambda>(i, n, m, sh, st, s). n - i)") auto

text \<open>Lines 231 to 239: the search of output mode \<open>i\<close> in the first operand. One pass of the
  body either copies the extent and sets \<^verbatim>\<open>found\<close> (the loop is then left by \<^verbatim>\<open>break\<close>) or
  changes nothing. \<open>mode\<close> is the value read from \<^verbatim>\<open>redirectModeC[i]\<close>; a value nobody knows
  matches no cell.\<close>

definition searchA_body :: "nat \<Rightarrow> nat \<Rightarrow> char option \<Rightarrow> einsum \<Rightarrow> bool \<times> einsum" where
  "searchA_body j i mode s =
     (let (m, s1) = rd_cell ''modesA_'' (modesA_m s) j s
      in if mode \<noteq> None \<and> m = mode then
           (let (ext, s2) = rd_cell ''extentA_'' (extentA_m s1) j s1;
                (ec, s3) = wr ''extentC_'' (extentC_m s2) i ext s2
            in (True, s3\<lparr>extentC_m := ec\<rparr>))
         else (False, s1))"

function searchA :: "nat \<Rightarrow> nat \<Rightarrow> nat \<Rightarrow> char option \<Rightarrow> einsum \<Rightarrow> bool \<times> einsum" where
  "searchA j n i mode s =
     (if j < n then
        (case searchA_body j i mode s of
           (found, s') \<Rightarrow> if found then (True, s') else searchA (j + 1) n i mode s')
      else (False, s))"
  by pat_completeness auto
termination
  by (relation "measure (\<lambda>(j, n, i, m, s). n - j)") auto

text \<open>Lines 240 to 247: the search in the second operand, entered only with \<^verbatim>\<open>found\<close>
  false. The flag of the body says whether the loop is left by \<^verbatim>\<open>break\<close>. When no mode
  matches, nothing is written and nothing is thrown.\<close>

definition searchB_body :: "nat \<Rightarrow> nat \<Rightarrow> char option \<Rightarrow> einsum \<Rightarrow> bool \<times> einsum" where
  "searchB_body j i mode s =
     (let (m, s1) = rd_cell ''modesB_'' (modesB_m s) j s
      in if mode \<noteq> None \<and> m = mode then
           (let (ext, s2) = rd_cell ''extentB_'' (extentB_m s1) j s1;
                (ec, s3) = wr ''extentC_'' (extentC_m s2) i ext s2
            in (True, s3\<lparr>extentC_m := ec\<rparr>))
         else (False, s1))"

function searchB :: "nat \<Rightarrow> nat \<Rightarrow> nat \<Rightarrow> char option \<Rightarrow> einsum \<Rightarrow> einsum" where
  "searchB j n i mode s =
     (if j < n then
        (case searchB_body j i mode s of
           (left, s') \<Rightarrow> if left then s' else searchB (j + 1) n i mode s')
      else s)"
  by pat_completeness auto
termination
  by (relation "measure (\<lambda>(j, n, i, m, s). n - j)") auto

text \<open>Lines 226 to 248: the output loop, up to \<open>n\<close> = \<^verbatim>\<open>numModesC_\<close>. The inner bounds
  \<^verbatim>\<open>numModesA_\<close> and \<^verbatim>\<open>numModesB_\<close> are read from the object. Nothing compares \<open>i\<close> with
  the size of \<^verbatim>\<open>modesC_\<close> or \<^verbatim>\<open>extentC_\<close>.\<close>

definition outputC_body :: "nat \<Rightarrow> string \<Rightarrow> einsum \<Rightarrow> einsum" where
  "outputC_body i redirect s =
     (let (mode, s1) = rd ''redirectModeC'' redirect i s;
          (mc, s2) = wr ''modesC_'' (modesC_m s1) i mode s1;
          s3 = s2\<lparr>modesC_m := mc\<rparr>;
          (found, s4) = searchA 0 (numModesA_m s3) i mode s3
      in if \<not> found then searchB 0 (numModesB_m s4) i mode s4 else s4)"

function outputC :: "nat \<Rightarrow> nat \<Rightarrow> string \<Rightarrow> einsum \<Rightarrow> einsum" where
  "outputC i n redirect s =
     (if i < n then outputC (i + 1) n redirect (outputC_body i redirect s) else s)"
  by pat_completeness auto
termination
  by (relation "measure (\<lambda>(i, n, r, s). n - i)") auto

declare copyA.simps [simp del] copyB.simps [simp del] searchA.simps [simp del]
  searchB.simps [simp del] outputC.simps [simp del]

subsection \<open>The constructor\<close>

text \<open>Lines 147 to 250: the four checks, the resolution of the output modes, the three
  descriptor loops, and the flag. \<^verbatim>\<open>copyModesIf\<close> is called with \<^verbatim>\<open>numModesA_\<close> and
  \<^verbatim>\<open>numModesB_\<close>, which the checks have made the lengths of \<open>modeA\<close> and \<open>modeB\<close>. With
  explicit output \<^verbatim>\<open>numModesC_\<close> is the number of characters extracted, up to
  \<open>kMaxNumModes + 2\<close>, and nothing is checked.\<close>

definition construct ::
  "nat \<Rightarrow> bool \<Rightarrow> bool \<Rightarrow> string \<Rightarrow> string \<Rightarrow> string \<Rightarrow>
   int list \<Rightarrow> int list \<Rightarrow> int list \<Rightarrow> int list \<Rightarrow> einsum \<Rightarrow> error + einsum" where
  "construct kMaxNumModes signed_char implicit modeA modeB modeC
      A_shape A_strides B_shape B_strides s1 =
     (if length modeA \<noteq> numModesA_m s1 then Inl ModesShapeMismatchA
      else if length modeB \<noteq> numModesB_m s1 then Inl ModesShapeMismatchB
      else if numModesA_m s1 > kMaxNumModes then Inl TooManyModesA
      else if numModesB_m s1 > kMaxNumModes then Inl TooManyModesB
      else
        bindE (redirectModeC kMaxNumModes signed_char implicit modeA modeB modeC) (\<lambda>redirect.
        let s2 = s1\<lparr>numModesC_m := length redirect\<rparr>;
            s3 = copyA 0 (numModesA_m s2) modeA A_shape A_strides s2;
            s4 = copyB 0 (numModesB_m s3) modeB B_shape B_strides s3;
            s5 = outputC 0 (numModesC_m s4) redirect s4
        in Inr (s5\<lparr>isInitialized_m := True\<rparr>)))"

text \<open>The constructor (lines 88 to 251): the separators, the rejection of the broadcast
  marker, the second operand switched off without a comma, the three extractions, and the
  rest.\<close>

definition Einsum ::
  "nat \<Rightarrow> bool \<Rightarrow> string \<Rightarrow> int list \<Rightarrow> int list \<Rightarrow> int list \<Rightarrow> int list \<Rightarrow> error + einsum" where
  "Einsum kMaxNumModes signed_char equation A_shape A_strides B_shape B_strides =
     (let s0 = init kMaxNumModes A_shape B_shape in
      if dots equation \<noteq> None then Inl BroadcastNotSupported
      else
        let s1 = (if \<not> usesB equation then s0\<lparr>numModesB_m := 0\<rparr> else s0) in
        bindE (extract_modeA kMaxNumModes equation) (\<lambda>modeA.
        bindE (extract_modeB kMaxNumModes equation) (\<lambda>modeB.
        bindE (extract_modeC kMaxNumModes equation) (\<lambda>modeC.
        construct kMaxNumModes signed_char (isImplicit equation) modeA modeB modeC
          A_shape A_strides B_shape B_strides s1))))"

subsection \<open>The methods\<close>

text \<open>\<^verbatim>\<open>getOutputShape\<close> (lines 255 to 265). The method is \<^verbatim>\<open>const\<close>: the object comes
  back as it was. The result vector starts as \<open>n\<close> zeros and the loop stores at the indices
  below \<open>n\<close>, inside it. \<^verbatim>\<open>extentC_.at(i)\<close> throws at an index from \<open>kMaxNumModes\<close> on; a
  cell the constructor never wrote is read as \<open>None\<close>, a value nobody knows.\<close>

definition read_extentC_body :: "nat \<Rightarrow> einsum \<Rightarrow> int option list \<Rightarrow> error + int option list" where
  "read_extentC_body i s extentC =
     bindE (at ''extentC_'' (extentC_m s) i) (\<lambda>v. Inr (extentC[i := v]))"

function read_extentC :: "nat \<Rightarrow> nat \<Rightarrow> einsum \<Rightarrow> int option list \<Rightarrow> error + int option list" where
  "read_extentC i n s extentC =
     (if i < n then
        (case read_extentC_body i s extentC of
           Inl err \<Rightarrow> Inl err
         | Inr extentC' \<Rightarrow> read_extentC (i + 1) n s extentC')
      else Inr extentC)"
  by pat_completeness auto
termination
  by (relation "measure (\<lambda>(i, n, s, e). n - i)") auto

declare read_extentC.simps [simp del]

definition getOutputShape :: "einsum \<Rightarrow> (error + int option list) \<times> einsum" where
  "getOutputShape s =
     (if \<not> isInitialized_m s then (Inr [], s)
      else (read_extentC 0 (numModesC_m s) s (replicate (numModesC_m s) (Some 0)), s))"

text \<open>\<^verbatim>\<open>modesC()\<close> (lines 397 to 402), and \<^verbatim>\<open>modesA()\<close>, \<^verbatim>\<open>modesB()\<close> alike: the first
  \<^verbatim>\<open>numModes\<close> cells, read with \<^verbatim>\<open>at\<close> and pushed back in order.\<close>

function push_modes :: "string \<Rightarrow> nat \<Rightarrow> nat \<Rightarrow> char option list \<Rightarrow> char option list \<Rightarrow> error + char option list" where
  "push_modes name i n modes out =
     (if i < n then
        (case at name modes i of Inl err \<Rightarrow> Inl err | Inr m \<Rightarrow>
           push_modes name (i + 1) n modes (out @ [m]))
      else Inr out)"
  by pat_completeness auto
termination
  by (relation "measure (\<lambda>(nm, i, n, m, out). n - i)") auto

declare push_modes.simps [simp del]

definition modesA :: "einsum \<Rightarrow> error + char option list" where
  "modesA s = push_modes ''modesA_'' 0 (numModesA_m s) (modesA_m s) []"

definition modesB :: "einsum \<Rightarrow> error + char option list" where
  "modesB s = push_modes ''modesB_'' 0 (numModesB_m s) (modesB_m s) []"

definition modesC :: "einsum \<Rightarrow> error + char option list" where
  "modesC s = push_modes ''modesC_'' 0 (numModesC_m s) (modesC_m s) []"

definition isInitialized :: "einsum \<Rightarrow> bool" where
  "isInitialized s = isInitialized_m s"

text \<open>\<^verbatim>\<open>HANDLE_ERROR\<close>: the call is made; a status other than success is thrown. \<open>backend\<close>
  says which calls succeed; \<open>issued\<close> are the calls made so far.\<close>

definition HANDLE_ERROR ::
  "(backend_call \<Rightarrow> bool) \<Rightarrow> backend_call \<Rightarrow> backend_call list \<Rightarrow> error + backend_call list" where
  "HANDLE_ERROR backend c issued =
     (if backend c then Inr (issued @ [c]) else Inl (BackendError c))"

text \<open>\<^verbatim>\<open>execute\<close> (lines 276 to 382), a \<^verbatim>\<open>const\<close> method: the result is the returned flag with
  the backend calls made, or the error thrown; the object comes back as it was.\<close>

definition execute ::
  "(backend_call \<Rightarrow> bool) \<Rightarrow> int list \<Rightarrow> einsum \<Rightarrow> (error + bool \<times> backend_call list) \<times> einsum" where
  "execute backend C_strides s =
     (if \<not> isInitialized_m s then (Inr (False, []), s)
      else
       (bindE (HANDLE_ERROR backend
                (cutensorInitTensorDescriptor TensorA (numModesA_m s) (extentA_m s) (stridesA_m s)) [])
          (\<lambda>t1.
        bindE (HANDLE_ERROR backend
                (cutensorInitTensorDescriptor TensorC (numModesC_m s) (extentC_m s)
                   (map Some C_strides)) t1)
          (\<lambda>t2.
        bindE (HANDLE_ERROR backend (cutensorGetAlignmentRequirement TensorA) t2) (\<lambda>t3.
        bindE (HANDLE_ERROR backend (cutensorGetAlignmentRequirement TensorC) t3) (\<lambda>t4.
        bindE
          (if numModesB_m s > 0 then
             bindE (HANDLE_ERROR backend
                     (cutensorInitTensorDescriptor TensorB (numModesB_m s) (extentB_m s)
                        (stridesB_m s)) t4)
               (\<lambda>t5.
             bindE (HANDLE_ERROR backend (cutensorGetAlignmentRequirement TensorB) t5) (\<lambda>t6.
             bindE (HANDLE_ERROR backend
                     (cutensorInitContractionDescriptor (modesA_m s) (modesB_m s) (modesC_m s)) t6)
               (\<lambda>t7.
             bindE (HANDLE_ERROR backend cutensorInitContractionFind t7) (\<lambda>t8.
             bindE (HANDLE_ERROR backend
                     (cutensorContractionFindSetAttribute ''AUTOTUNE_MODE'') t8)
               (\<lambda>t9.
             bindE (HANDLE_ERROR backend
                     (cutensorContractionFindSetAttribute ''INCREMENTAL_COUNT'') t9)
               (\<lambda>t10.
             bindE (HANDLE_ERROR backend cutensorInitContractionPlan t10) (\<lambda>t11.
             HANDLE_ERROR backend cutensorContraction t11)))))))
           else HANDLE_ERROR backend (cutensorReduction (modesA_m s) (modesC_m s)) t4)
          (\<lambda>t. Inr (True, t)))))),
        s))"

text \<open>What the two searches of the output loop amount to: the extent at the first position of
  the mode in the first operand, else at its first position in the second, else nothing.\<close>

abbreviation first_extent :: "string \<Rightarrow> int list \<Rightarrow> string \<Rightarrow> int list \<Rightarrow> char \<Rightarrow> int option" where
  "first_extent modeA A_shape modeB B_shape mode \<equiv>
     (case map_of (zip modeA A_shape) mode of
        Some e \<Rightarrow> Some e
      | None \<Rightarrow> map_of (zip modeB B_shape) mode)"

text \<open>What \<^verbatim>\<open>v[j]\<close> reads: the value inside the vector, a value nobody knows outside.\<close>

abbreviation read_value :: "'a list \<Rightarrow> nat \<Rightarrow> 'a option" where
  "read_value xs j \<equiv> (if j < length xs then Some (xs ! j) else None)"

text \<open>What \<^verbatim>\<open>extentC_[i] = v\<close> does to the object.\<close>

abbreviation store_extentC :: "nat \<Rightarrow> int option \<Rightarrow> einsum \<Rightarrow> einsum" where
  "store_extentC i v s \<equiv>
     (if i < length (extentC_m s) then s\<lparr>extentC_m := (extentC_m s)[i := v]\<rparr>
      else outside ''extentC_'' i s)"

text \<open>The out-of-bounds accesses of one pass of the output loop at an index \<open>i\<close> past the arrays:
  the store of the mode, and the store of the extent when the mode is found.\<close>

abbreviation past_the_end :: "(char \<Rightarrow> int option) \<Rightarrow> string \<Rightarrow> nat \<Rightarrow> (string \<times> nat) list" where
  "past_the_end extent_of redirect i \<equiv>
     (''modesC_'', i) # (if extent_of (redirect ! i) = None then [] else [(''extentC_'', i)])"

section \<open>The loops in closed form\<close>

subsection \<open>The operand loops\<close>

lemma range_update_upt:
  "i < n \<Longrightarrow> n \<le> length xs \<Longrightarrow>
   take (Suc i) (xs[i := f i]) @ map f [Suc i..<n] @ zs = take i xs @ map f [i..<n] @ zs"
  by (simp add: take_Suc_conv_app_nth upt_conv_Cons)

lemma range_update:
  "i < n \<Longrightarrow> n \<le> length xs \<Longrightarrow> n \<le> length ys \<Longrightarrow>
   take (Suc i) (xs[i := f (ys ! i)]) @ map f (take (n - Suc i) (drop (Suc i) ys)) @ zs
   = take i xs @ map f (take (n - i) (drop i ys)) @ zs"
proof -
  assume a: "i < n" "n \<le> length xs" "n \<le> length ys"
  have 1: "take (Suc i) (xs[i := f (ys ! i)]) = take i xs @ [f (ys ! i)]"
    using a by (simp add: take_Suc_conv_app_nth)
  have 3: "take (n - i) (drop i ys) = ys ! i # take (n - Suc i) (drop (Suc i) ys)"
    using a by (metis Cons_nth_drop_Suc Suc_diff_Suc less_le_trans take_Suc_Cons)
  show ?thesis by (simp add: 1 3)
qed

lemma filter_upt_from: "filter (\<lambda>j. m \<le> j) [i..<n] = [max i m..<n]"
proof (induction n)
  case 0
  show ?case by simp
next
  case (Suc n)
  show ?case
  proof (cases "i \<le> n")
    case True
    then show ?thesis using Suc by (cases "m \<le> n") (auto simp: max_def)
  next
    case False
    then show ?thesis by simp
  qed
qed

lemma copyA_body_eq:
  "i < length modeA \<Longrightarrow> i < length A_shape \<Longrightarrow> i < length (modesA_m s) \<Longrightarrow>
   i < length (extentA_m s) \<Longrightarrow> i < length (stridesA_m s) \<Longrightarrow>
   copyA_body i modeA A_shape A_strides s =
     s\<lparr>modesA_m := (modesA_m s)[i := Some (modeA ! i)],
       extentA_m := (extentA_m s)[i := Some (A_shape ! i)],
       stridesA_m := (stridesA_m s)[i := read_value A_strides i],
       out_of_bounds := out_of_bounds s @ (if i < length A_strides then [] else [(''A_strides'', i)])\<rparr>"
  by (simp add: copyA_body_def rd_def wr_def outside_def)

lemma copyA_eq:
  "i \<le> n \<Longrightarrow> n \<le> length modeA \<Longrightarrow> n \<le> length A_shape \<Longrightarrow> n \<le> length (modesA_m s) \<Longrightarrow>
   n \<le> length (extentA_m s) \<Longrightarrow> n \<le> length (stridesA_m s) \<Longrightarrow>
   copyA i n modeA A_shape A_strides s =
     s\<lparr>modesA_m := take i (modesA_m s) @ map Some (take (n - i) (drop i modeA)) @ drop n (modesA_m s),
       extentA_m := take i (extentA_m s) @ map Some (take (n - i) (drop i A_shape)) @ drop n (extentA_m s),
       stridesA_m := take i (stridesA_m s) @ map (read_value A_strides) [i..<n] @ drop n (stridesA_m s),
       out_of_bounds := out_of_bounds s
          @ map (Pair ''A_strides'') (filter (\<lambda>j. length A_strides \<le> j) [i..<n])\<rparr>"
proof (induction "n - i" arbitrary: i s)
  case 0
  then have "i = n" by simp
  then show ?case using 0 by (subst copyA.simps) simp
next
  case (Suc d)
  then have lt: "i < n" by simp
  let ?s' = "s\<lparr>modesA_m := (modesA_m s)[i := Some (modeA ! i)],
       extentA_m := (extentA_m s)[i := Some (A_shape ! i)],
       stridesA_m := (stridesA_m s)[i := read_value A_strides i],
       out_of_bounds := out_of_bounds s @ (if i < length A_strides then [] else [(''A_strides'', i)])\<rparr>"
  have step: "copyA i n modeA A_shape A_strides s = copyA (Suc i) n modeA A_shape A_strides ?s'"
    using lt Suc.prems by (subst copyA.simps) (simp add: copyA_body_eq)
  have d: "d = n - Suc i" using Suc.hyps by simp
  have ih: "copyA (Suc i) n modeA A_shape A_strides ?s' =
     ?s'\<lparr>modesA_m := take (Suc i) (modesA_m ?s') @ map Some (take (n - Suc i) (drop (Suc i) modeA)) @ drop n (modesA_m ?s'),
       extentA_m := take (Suc i) (extentA_m ?s') @ map Some (take (n - Suc i) (drop (Suc i) A_shape)) @ drop n (extentA_m ?s'),
       stridesA_m := take (Suc i) (stridesA_m ?s') @ map (read_value A_strides) [Suc i..<n] @ drop n (stridesA_m ?s'),
       out_of_bounds := out_of_bounds ?s'
          @ map (Pair ''A_strides'') (filter (\<lambda>j. length A_strides \<le> j) [Suc i..<n])\<rparr>"
    using Suc.prems lt by (intro Suc.hyps(1)[OF d]) simp_all
  have 1: "take (Suc i) ((modesA_m s)[i := Some (modeA ! i)]) @ map Some (take (n - Suc i) (drop (Suc i) modeA)) @ drop n (modesA_m s)
      = take i (modesA_m s) @ map Some (take (n - i) (drop i modeA)) @ drop n (modesA_m s)"
    using lt Suc.prems by (intro range_update) simp_all
  have 2: "take (Suc i) ((extentA_m s)[i := Some (A_shape ! i)]) @ map Some (take (n - Suc i) (drop (Suc i) A_shape)) @ drop n (extentA_m s)
      = take i (extentA_m s) @ map Some (take (n - i) (drop i A_shape)) @ drop n (extentA_m s)"
    using lt Suc.prems by (intro range_update) simp_all
  have 3: "take (Suc i) ((stridesA_m s)[i := read_value A_strides i]) @ map (read_value A_strides) [Suc i..<n] @ drop n (stridesA_m s)
      = take i (stridesA_m s) @ map (read_value A_strides) [i..<n] @ drop n (stridesA_m s)"
    using lt Suc.prems by (intro range_update_upt) simp_all
  have 4: "(if i < length A_strides then [] else [(''A_strides'', i)])
        @ map (Pair ''A_strides'') (filter (\<lambda>j. length A_strides \<le> j) [Suc i..<n])
      = map (Pair ''A_strides'') (filter (\<lambda>j. length A_strides \<le> j) [i..<n])"
    using lt by (simp add: upt_conv_Cons)
  show ?case
    unfolding step ih using lt Suc.prems 1 2 3 4 by simp
qed

lemma copyB_body_eq:
  "i < length modeB \<Longrightarrow> i < length B_shape \<Longrightarrow> i < length (modesB_m s) \<Longrightarrow>
   i < length (extentB_m s) \<Longrightarrow> i < length (stridesB_m s) \<Longrightarrow>
   copyB_body i modeB B_shape B_strides s =
     s\<lparr>modesB_m := (modesB_m s)[i := Some (modeB ! i)],
       extentB_m := (extentB_m s)[i := Some (B_shape ! i)],
       stridesB_m := (stridesB_m s)[i := read_value B_strides i],
       out_of_bounds := out_of_bounds s @ (if i < length B_strides then [] else [(''B_strides'', i)])\<rparr>"
  by (simp add: copyB_body_def rd_def wr_def outside_def)

lemma copyB_eq:
  "i \<le> n \<Longrightarrow> n \<le> length modeB \<Longrightarrow> n \<le> length B_shape \<Longrightarrow> n \<le> length (modesB_m s) \<Longrightarrow>
   n \<le> length (extentB_m s) \<Longrightarrow> n \<le> length (stridesB_m s) \<Longrightarrow>
   copyB i n modeB B_shape B_strides s =
     s\<lparr>modesB_m := take i (modesB_m s) @ map Some (take (n - i) (drop i modeB)) @ drop n (modesB_m s),
       extentB_m := take i (extentB_m s) @ map Some (take (n - i) (drop i B_shape)) @ drop n (extentB_m s),
       stridesB_m := take i (stridesB_m s) @ map (read_value B_strides) [i..<n] @ drop n (stridesB_m s),
       out_of_bounds := out_of_bounds s
          @ map (Pair ''B_strides'') (filter (\<lambda>j. length B_strides \<le> j) [i..<n])\<rparr>"
proof (induction "n - i" arbitrary: i s)
  case 0
  then have "i = n" by simp
  then show ?case using 0 by (subst copyB.simps) simp
next
  case (Suc d)
  then have lt: "i < n" by simp
  let ?s' = "s\<lparr>modesB_m := (modesB_m s)[i := Some (modeB ! i)],
       extentB_m := (extentB_m s)[i := Some (B_shape ! i)],
       stridesB_m := (stridesB_m s)[i := read_value B_strides i],
       out_of_bounds := out_of_bounds s @ (if i < length B_strides then [] else [(''B_strides'', i)])\<rparr>"
  have step: "copyB i n modeB B_shape B_strides s = copyB (Suc i) n modeB B_shape B_strides ?s'"
    using lt Suc.prems by (subst copyB.simps) (simp add: copyB_body_eq)
  have d: "d = n - Suc i" using Suc.hyps by simp
  have ih: "copyB (Suc i) n modeB B_shape B_strides ?s' =
     ?s'\<lparr>modesB_m := take (Suc i) (modesB_m ?s') @ map Some (take (n - Suc i) (drop (Suc i) modeB)) @ drop n (modesB_m ?s'),
       extentB_m := take (Suc i) (extentB_m ?s') @ map Some (take (n - Suc i) (drop (Suc i) B_shape)) @ drop n (extentB_m ?s'),
       stridesB_m := take (Suc i) (stridesB_m ?s') @ map (read_value B_strides) [Suc i..<n] @ drop n (stridesB_m ?s'),
       out_of_bounds := out_of_bounds ?s'
          @ map (Pair ''B_strides'') (filter (\<lambda>j. length B_strides \<le> j) [Suc i..<n])\<rparr>"
    using Suc.prems lt by (intro Suc.hyps(1)[OF d]) simp_all
  have 1: "take (Suc i) ((modesB_m s)[i := Some (modeB ! i)]) @ map Some (take (n - Suc i) (drop (Suc i) modeB)) @ drop n (modesB_m s)
      = take i (modesB_m s) @ map Some (take (n - i) (drop i modeB)) @ drop n (modesB_m s)"
    using lt Suc.prems by (intro range_update) simp_all
  have 2: "take (Suc i) ((extentB_m s)[i := Some (B_shape ! i)]) @ map Some (take (n - Suc i) (drop (Suc i) B_shape)) @ drop n (extentB_m s)
      = take i (extentB_m s) @ map Some (take (n - i) (drop i B_shape)) @ drop n (extentB_m s)"
    using lt Suc.prems by (intro range_update) simp_all
  have 3: "take (Suc i) ((stridesB_m s)[i := read_value B_strides i]) @ map (read_value B_strides) [Suc i..<n] @ drop n (stridesB_m s)
      = take i (stridesB_m s) @ map (read_value B_strides) [i..<n] @ drop n (stridesB_m s)"
    using lt Suc.prems by (intro range_update_upt) simp_all
  have 4: "(if i < length B_strides then [] else [(''B_strides'', i)])
        @ map (Pair ''B_strides'') (filter (\<lambda>j. length B_strides \<le> j) [Suc i..<n])
      = map (Pair ''B_strides'') (filter (\<lambda>j. length B_strides \<le> j) [i..<n])"
    using lt by (simp add: upt_conv_Cons)
  show ?case
    unfolding step ih using lt Suc.prems 1 2 3 4 by simp
qed

subsection \<open>The output loop\<close>

lemma searchA_eq:
  "j \<le> n \<Longrightarrow> n = length ms \<Longrightarrow> n = length es \<Longrightarrow>
   n \<le> length (modesA_m s) \<Longrightarrow> n \<le> length (extentA_m s) \<Longrightarrow>
   take n (modesA_m s) = map Some ms \<Longrightarrow> take n (extentA_m s) = map Some es \<Longrightarrow>
   searchA j n i (Some mode) s =
     (case map_of (zip (drop j ms) (drop j es)) mode of
        None \<Rightarrow> (False, s)
      | Some e \<Rightarrow> (True, store_extentC i (Some e) s))"
proof (induction "n - j" arbitrary: j)
  case 0
  then show ?case by (subst searchA.simps) simp
next
  case (Suc d)
  then have lt: "j < n" by simp
  have m: "modesA_m s ! j = Some (ms ! j)"
    using lt Suc.prems by (metis nth_map nth_take)
  have e: "extentA_m s ! j = Some (es ! j)"
    using lt Suc.prems by (metis nth_map nth_take)
  have body: "searchA_body j i (Some mode) s =
      (if ms ! j = mode then (True, store_extentC i (Some (es ! j)) s) else (False, s))"
    using lt Suc.prems m e by (simp add: searchA_body_def rd_cell_def wr_def outside_def)
  have dm: "drop j ms = ms ! j # drop (Suc j) ms"
    using lt Suc.prems by (simp add: Cons_nth_drop_Suc)
  have de: "drop j es = es ! j # drop (Suc j) es"
    using lt Suc.prems by (simp add: Cons_nth_drop_Suc)
  have d: "d = n - Suc j" using Suc.hyps by simp
  have ih: "searchA (Suc j) n i (Some mode) s =
     (case map_of (zip (drop (Suc j) ms) (drop (Suc j) es)) mode of
        None \<Rightarrow> (False, s)
      | Some e \<Rightarrow> (True, store_extentC i (Some e) s))"
    using Suc.prems lt by (intro Suc.hyps(1)[OF d]) simp_all
  show ?case
    using lt body ih by (subst searchA.simps) (auto simp: dm de)
qed

lemma searchB_eq:
  "j \<le> n \<Longrightarrow> n = length ms \<Longrightarrow> n = length es \<Longrightarrow>
   n \<le> length (modesB_m s) \<Longrightarrow> n \<le> length (extentB_m s) \<Longrightarrow>
   take n (modesB_m s) = map Some ms \<Longrightarrow> take n (extentB_m s) = map Some es \<Longrightarrow>
   searchB j n i (Some mode) s =
     (case map_of (zip (drop j ms) (drop j es)) mode of
        None \<Rightarrow> s
      | Some e \<Rightarrow> store_extentC i (Some e) s)"
proof (induction "n - j" arbitrary: j)
  case 0
  then show ?case by (subst searchB.simps) simp
next
  case (Suc d)
  then have lt: "j < n" by simp
  have m: "modesB_m s ! j = Some (ms ! j)"
    using lt Suc.prems by (metis nth_map nth_take)
  have e: "extentB_m s ! j = Some (es ! j)"
    using lt Suc.prems by (metis nth_map nth_take)
  have body: "searchB_body j i (Some mode) s =
      (if ms ! j = mode then (True, store_extentC i (Some (es ! j)) s) else (False, s))"
    using lt Suc.prems m e by (simp add: searchB_body_def rd_cell_def wr_def outside_def)
  have dm: "drop j ms = ms ! j # drop (Suc j) ms"
    using lt Suc.prems by (simp add: Cons_nth_drop_Suc)
  have de: "drop j es = es ! j # drop (Suc j) es"
    using lt Suc.prems by (simp add: Cons_nth_drop_Suc)
  have d: "d = n - Suc j" using Suc.hyps by simp
  have ih: "searchB (Suc j) n i (Some mode) s =
     (case map_of (zip (drop (Suc j) ms) (drop (Suc j) es)) mode of
        None \<Rightarrow> s
      | Some e \<Rightarrow> store_extentC i (Some e) s)"
    using Suc.prems lt by (intro Suc.hyps(1)[OF d]) simp_all
  show ?case
    using lt body ih by (subst searchB.simps) (auto simp: dm de)
qed

lemma outputC_body_eq:
  assumes "i < length redirect" "length (modesC_m s) = k" "length (extentC_m s) = k"
    and "numModesA_m s = length ma" "length ea = length ma"
    and "numModesB_m s = length mb" "length eb = length mb"
    and "length ma \<le> length (modesA_m s)" "length ma \<le> length (extentA_m s)"
    and "length mb \<le> length (modesB_m s)" "length mb \<le> length (extentB_m s)"
    and "take (length ma) (modesA_m s) = map Some ma" "take (length ma) (extentA_m s) = map Some ea"
    and "take (length mb) (modesB_m s) = map Some mb" "take (length mb) (extentB_m s) = map Some eb"
    and "i < k \<longrightarrow> extentC_m s ! i = None"
  shows "outputC_body i redirect s =
     (if i < k
      then s\<lparr>modesC_m := (modesC_m s)[i := Some (redirect ! i)],
             extentC_m := (extentC_m s)[i := first_extent ma ea mb eb (redirect ! i)]\<rparr>
      else s\<lparr>out_of_bounds := out_of_bounds s
                @ past_the_end (first_extent ma ea mb eb) redirect i\<rparr>)"
proof -
  let ?mode = "redirect ! i"
  have sa: "searchA 0 (length ma) i (Some ?mode) s' =
      (case map_of (zip ma ea) ?mode of
         None \<Rightarrow> (False, s')
       | Some e \<Rightarrow> (True, store_extentC i (Some e) s'))"
    if "modesA_m s' = modesA_m s" "extentA_m s' = extentA_m s" for s'
    using assms that by (subst searchA_eq[where ms = ma and es = ea]) simp_all
  have sb: "searchB 0 (length mb) i (Some ?mode) s' =
      (case map_of (zip mb eb) ?mode of
         None \<Rightarrow> s'
       | Some e \<Rightarrow> store_extentC i (Some e) s')"
    if "modesB_m s' = modesB_m s" "extentB_m s' = extentB_m s" for s'
    using assms that by (subst searchB_eq[where ms = mb and es = eb]) simp_all
  show ?thesis
  proof (cases "i < k")
    case True
    let ?s' = "s\<lparr>modesC_m := (modesC_m s)[i := Some ?mode]\<rparr>"
    have id: "(extentC_m s)[i := None] = extentC_m s"
      using assms(16) True by (metis list_update_id)
    have pre: "outputC_body i redirect s =
      (case searchA 0 (length ma) i (Some ?mode) ?s' of
         (found, s4) \<Rightarrow> if \<not> found then searchB 0 (numModesB_m s4) i (Some ?mode) s4 else s4)"
      using assms(1,2,4) True by (simp add: outputC_body_def rd_def wr_def outside_def)
    show ?thesis
    proof (cases "map_of (zip ma ea) ?mode")
      case None
      show ?thesis
        unfolding pre using None True assms(3,6) id sa[of ?s'] sb[of ?s']
        by (cases "map_of (zip mb eb) ?mode") simp_all
    next
      case (Some e)
      show ?thesis
        unfolding pre using Some True assms(3) sa[of ?s'] by simp
    qed
  next
    case False
    let ?s' = "s\<lparr>out_of_bounds := out_of_bounds s @ [(''modesC_'', i)]\<rparr>"
    have pre: "outputC_body i redirect s =
      (case searchA 0 (length ma) i (Some ?mode) ?s' of
         (found, s4) \<Rightarrow> if \<not> found then searchB 0 (numModesB_m s4) i (Some ?mode) s4 else s4)"
      using assms(1,2,4) False by (simp add: outputC_body_def rd_def wr_def outside_def)
    show ?thesis
    proof (cases "map_of (zip ma ea) ?mode")
      case None
      show ?thesis
        unfolding pre using None False assms(3,6) sa[of ?s'] sb[of ?s']
        by (cases "map_of (zip mb eb) ?mode") (simp_all add: outside_def)
    next
      case (Some e)
      show ?thesis
        unfolding pre using Some False assms(3) sa[of ?s'] by (simp add: outside_def)
    qed
  qed
qed

lemma outputC_split:
  "i \<le> m \<Longrightarrow> m \<le> n \<Longrightarrow> outputC i n redirect s = outputC m n redirect (outputC i m redirect s)"
proof (induction "m - i" arbitrary: i s)
  case 0
  then have "i = m" by simp
  then show ?case by (subst (3) outputC.simps) simp
next
  case (Suc d)
  then have lt: "i < m" "i < n" by simp_all
  have d: "d = m - Suc i" using Suc.hyps by simp
  have "outputC i n redirect s = outputC (Suc i) n redirect (outputC_body i redirect s)"
    using lt by (subst outputC.simps) simp
  also have "\<dots> = outputC m n redirect (outputC (Suc i) m redirect (outputC_body i redirect s))"
    using lt Suc.prems by (intro Suc.hyps(1)[OF d]) simp_all
  also have "outputC (Suc i) m redirect (outputC_body i redirect s) = outputC i m redirect s"
    using lt by (subst (2) outputC.simps) simp
  finally show ?case .
qed

lemma outputC_inside:
  assumes "i \<le> n" "n \<le> length redirect" "n \<le> k"
    and "length (modesC_m s) = k" "length (extentC_m s) = k"
    and "numModesA_m s = length ma" "length ea = length ma"
    and "numModesB_m s = length mb" "length eb = length mb"
    and "length ma \<le> length (modesA_m s)" "length ma \<le> length (extentA_m s)"
    and "length mb \<le> length (modesB_m s)" "length mb \<le> length (extentB_m s)"
    and "take (length ma) (modesA_m s) = map Some ma" "take (length ma) (extentA_m s) = map Some ea"
    and "take (length mb) (modesB_m s) = map Some mb" "take (length mb) (extentB_m s) = map Some eb"
    and "\<forall>j. i \<le> j \<and> j < k \<longrightarrow> extentC_m s ! j = None"
  shows "outputC i n redirect s =
     s\<lparr>modesC_m := take i (modesC_m s) @ map Some (take (n - i) (drop i redirect))
                       @ drop n (modesC_m s),
       extentC_m := take i (extentC_m s)
                       @ map (first_extent ma ea mb eb) (take (n - i) (drop i redirect))
                       @ drop n (extentC_m s)\<rparr>"
  using assms
proof (induction "n - i" arbitrary: i s)
  case 0
  then have "i = n" by simp
  then show ?case using 0 by (subst outputC.simps) simp
next
  case (Suc d)
  then have lt: "i < n" "i < k" by simp_all
  let ?s' = "s\<lparr>modesC_m := (modesC_m s)[i := Some (redirect ! i)],
            extentC_m := (extentC_m s)[i := first_extent ma ea mb eb (redirect ! i)]\<rparr>"
  have none: "i < k \<longrightarrow> extentC_m s ! i = None" using Suc.prems lt by simp
  have il: "i < length redirect" using lt Suc.prems by simp
  have body: "outputC_body i redirect s = ?s'"
    using outputC_body_eq[OF il Suc.prems(4-17) none] lt by simp
  have step: "outputC i n redirect s = outputC (Suc i) n redirect ?s'"
    using lt body by (subst outputC.simps) simp
  have d: "d = n - Suc i" using Suc.hyps by simp
  have inv: "\<forall>j. Suc i \<le> j \<and> j < k \<longrightarrow> extentC_m ?s' ! j = None"
    using Suc.prems(18) by simp
  have ih: "outputC (Suc i) n redirect ?s' =
     ?s'\<lparr>modesC_m := take (Suc i) (modesC_m ?s') @ map Some (take (n - Suc i) (drop (Suc i) redirect))
                       @ drop n (modesC_m ?s'),
       extentC_m := take (Suc i) (extentC_m ?s')
                       @ map (first_extent ma ea mb eb) (take (n - Suc i) (drop (Suc i) redirect))
                       @ drop n (extentC_m ?s')\<rparr>"
    using Suc.prems(2-17) lt inv by (intro Suc.hyps(1)[OF d]) simp_all
  have 1: "take (Suc i) ((modesC_m s)[i := Some (redirect ! i)]) @ map Some (take (n - Suc i) (drop (Suc i) redirect)) @ drop n (modesC_m s)
      = take i (modesC_m s) @ map Some (take (n - i) (drop i redirect)) @ drop n (modesC_m s)"
    using lt Suc.prems by (intro range_update) simp_all
  have 2: "take (Suc i) ((extentC_m s)[i := first_extent ma ea mb eb (redirect ! i)])
        @ map (first_extent ma ea mb eb) (take (n - Suc i) (drop (Suc i) redirect)) @ drop n (extentC_m s)
      = take i (extentC_m s) @ map (first_extent ma ea mb eb) (take (n - i) (drop i redirect)) @ drop n (extentC_m s)"
    using lt Suc.prems by (intro range_update) simp_all
  show ?case
    unfolding step ih using lt 1 2 by simp
qed

lemma outputC_past:
  assumes "i \<le> n" "n \<le> length redirect" "k \<le> i"
    and "length (modesC_m s) = k" "length (extentC_m s) = k"
    and "numModesA_m s = length ma" "length ea = length ma"
    and "numModesB_m s = length mb" "length eb = length mb"
    and "length ma \<le> length (modesA_m s)" "length ma \<le> length (extentA_m s)"
    and "length mb \<le> length (modesB_m s)" "length mb \<le> length (extentB_m s)"
    and "take (length ma) (modesA_m s) = map Some ma" "take (length ma) (extentA_m s) = map Some ea"
    and "take (length mb) (modesB_m s) = map Some mb" "take (length mb) (extentB_m s) = map Some eb"
  shows "outputC i n redirect s =
     s\<lparr>out_of_bounds := out_of_bounds s
          @ concat (map (past_the_end (first_extent ma ea mb eb) redirect) [i..<n])\<rparr>"
  using assms
proof (induction "n - i" arbitrary: i s)
  case 0
  then have "i = n" by simp
  then show ?case by (subst outputC.simps) simp
next
  case (Suc d)
  then have lt: "i < n" "\<not> i < k" by simp_all
  let ?s' = "s\<lparr>out_of_bounds := out_of_bounds s
                @ past_the_end (first_extent ma ea mb eb) redirect i\<rparr>"
  have none: "i < k \<longrightarrow> extentC_m s ! i = None" using lt by simp
  have il: "i < length redirect" using lt Suc.prems by simp
  have body: "outputC_body i redirect s = ?s'"
    using outputC_body_eq[OF il Suc.prems(4-17) none] lt by simp
  have step: "outputC i n redirect s = outputC (Suc i) n redirect ?s'"
    using lt body by (subst outputC.simps) simp
  have d: "d = n - Suc i" using Suc.hyps by simp
  have ih: "outputC (Suc i) n redirect ?s' =
     ?s'\<lparr>out_of_bounds := out_of_bounds ?s'
          @ concat (map (past_the_end (first_extent ma ea mb eb) redirect) [Suc i..<n])\<rparr>"
    using Suc.prems(2-17) lt by (intro Suc.hyps(1)[OF d]) simp_all
  show ?case
    unfolding step ih using lt by (simp add: upt_conv_Cons)
qed

lemma outputC_eq:
  assumes "n \<le> length redirect"
    and "length (modesC_m s) = k" "length (extentC_m s) = k"
    and "numModesA_m s = length ma" "length ea = length ma"
    and "numModesB_m s = length mb" "length eb = length mb"
    and "length ma \<le> length (modesA_m s)" "length ma \<le> length (extentA_m s)"
    and "length mb \<le> length (modesB_m s)" "length mb \<le> length (extentB_m s)"
    and "take (length ma) (modesA_m s) = map Some ma" "take (length ma) (extentA_m s) = map Some ea"
    and "take (length mb) (modesB_m s) = map Some mb" "take (length mb) (extentB_m s) = map Some eb"
    and "\<forall>j < k. extentC_m s ! j = None"
  shows "outputC 0 n redirect s =
     s\<lparr>modesC_m := map Some (take (min n k) redirect) @ drop (min n k) (modesC_m s),
       extentC_m := map (first_extent ma ea mb eb) (take (min n k) redirect)
                       @ drop (min n k) (extentC_m s),
       out_of_bounds := out_of_bounds s
          @ concat (map (past_the_end (first_extent ma ea mb eb) redirect) [k..<n])\<rparr>"
proof -
  let ?m = "min n k"
  let ?s' = "s\<lparr>modesC_m := map Some (take ?m redirect) @ drop ?m (modesC_m s),
       extentC_m := map (first_extent ma ea mb eb) (take ?m redirect) @ drop ?m (extentC_m s)\<rparr>"
  have inv: "\<forall>j. 0 \<le> j \<and> j < k \<longrightarrow> extentC_m s ! j = None" using assms(16) by simp
  have ml: "?m \<le> length redirect" using assms(1) by simp
  have a: "outputC 0 ?m redirect s = ?s'"
    using outputC_inside[OF _ ml _ assms(2-15) inv] by simp
  show ?thesis
  proof (cases "n \<le> k")
    case True
    then show ?thesis using a by (simp add: min_def)
  next
    case False
    then have kn: "k \<le> n" "?m = k" by simp_all
    have "outputC 0 n redirect s = outputC k n redirect (outputC 0 k redirect s)"
      using kn by (intro outputC_split) simp_all
    also have "outputC 0 k redirect s = ?s'" using a kn by simp
    also have "outputC k n redirect ?s' =
      ?s'\<lparr>out_of_bounds := out_of_bounds ?s'
          @ concat (map (past_the_end (first_extent ma ea mb eb) redirect) [k..<n])\<rparr>"
      using kn assms by (intro outputC_past) simp_all
    finally show ?thesis by simp
  qed
qed

subsection \<open>Extraction, resolution and separators\<close>

lemma bindE_Inl: "bindE (Inl e) f = Inl e"
  by (simp add: bindE_def)

lemma bindE_Inr: "bindE (Inr x) f = f x"
  by (simp add: bindE_def)

lemma extract_modes_eq:
  "e \<le> length equation \<Longrightarrow> length mode \<le> k + 2 \<Longrightarrow>
   extract_modes k equation i e mode =
     Inr (take (k + 2) (mode @ filter (\<lambda>c. c \<noteq> CHR '' '') (take (e - i) (drop i equation))))"
proof (induction k equation i e mode rule: extract_modes.induct)
  case (1 k equation i e mode)
  show ?case
  proof (cases "i < e \<and> length mode < k + 2")
    case False
    then show ?thesis
      using "1.prems" by (subst extract_modes.simps) auto
  next
    case True
    then have il: "i < length equation" using "1.prems" by simp
    have at: "at ''equation'' equation i = Inr (equation ! i)"
      using il by (simp add: at_def)
    have seg: "take (e - i) (drop i equation) = equation ! i # take (e - Suc i) (drop (Suc i) equation)"
      using True il by (metis Cons_nth_drop_Suc Suc_diff_Suc take_Suc_Cons)
    show ?thesis
    proof (cases "equation ! i = CHR '' ''")
      case sp: True
      have "extract_modes k equation i e mode = extract_modes k equation (i + 1) e mode"
        using True at sp by (subst extract_modes.simps) simp
      also have "\<dots> = Inr (take (k + 2) (mode @ filter (\<lambda>c. c \<noteq> CHR '' '') (take (e - (i + 1)) (drop (i + 1) equation))))"
        using "1.IH"(2)[OF True at] sp "1.prems" by simp
      finally show ?thesis using seg sp by simp
    next
      case nsp: False
      have "extract_modes k equation i e mode = extract_modes k equation (i + 1) e (mode @ [equation ! i])"
        using True at nsp by (subst extract_modes.simps) simp
      also have "\<dots> = Inr (take (k + 2) ((mode @ [equation ! i]) @ filter (\<lambda>c. c \<noteq> CHR '' '') (take (e - (i + 1)) (drop (i + 1) equation))))"
        using "1.IH"(1)[OF True at] nsp "1.prems" True by simp
      finally show ?thesis using seg nsp by simp
    qed
  qed
qed

lemma found_in_set: "found_in mode modeB = (mode \<in> set modeB)"
  by (induction modeB) auto

lemma copyModesIf_eq:
  "length modeC \<le> k \<Longrightarrow>
   copyModesIf k modeA modeB modeC =
     (if length modeC + length (filter (\<lambda>m. m \<notin> set modeB) modeA) > k
      then Inl TooManyModesOutput
      else Inr (modeC @ filter (\<lambda>m. m \<notin> set modeB) modeA))"
  by (induction modeA arbitrary: modeC) (auto simp: found_in_set Let_def)

lemma redirectModeC_implicit:
  "redirectModeC k sg True modeA modeB modeC =
     (let nc = filter (\<lambda>m. m \<notin> set modeB) modeA @ filter (\<lambda>m. m \<notin> set modeA) modeB
      in if length nc > k then Inl TooManyModesOutput else Inr (std_sort sg nc))"
  by (auto simp: redirectModeC_def copyModesIf_eq bindE_Inl bindE_Inr Let_def)

lemma redirectModeC_explicit: "redirectModeC k sg False modeA modeB modeC = Inr modeC"
  by (simp add: redirectModeC_def)

lemma string_find_Some:
  "string_find pat s = Some n \<Longrightarrow> prefix pat (drop n s) \<and> n + length pat \<le> length s"
proof (induction s arbitrary: n)
  case Nil
  then show ?case by (simp split: if_splits)
next
  case (Cons c cs)
  show ?case
  proof (cases "prefix pat (c # cs)")
    case True
    then have "n = 0" using Cons.prems by simp
    then show ?thesis using True prefix_length_le[OF True] by simp
  next
    case False
    then obtain m where m: "string_find pat cs = Some m" "n = Suc m"
      using Cons.prems by auto
    then show ?thesis using Cons.IH[OF m(1)] by simp
  qed
qed

lemma string_find_prefix: "prefix pat s \<Longrightarrow> string_find pat s = Some 0"
  by (cases s) auto

lemma string_find_occurs: "string_find pat (xs @ pat @ ys) \<noteq> None"
  by (induction xs) (auto simp: string_find_prefix)

lemma string_find_char: "(string_find [c] s \<noteq> None) = (c \<in> set s)"
  by (induction s) auto

lemma a_end_le: "a_end equation \<le> length equation"
  by (auto simp: a_end_def arrow_pos_def comma_pos_def split: option.splits
           dest!: string_find_Some)

lemma b_end_le: "b_end equation \<le> length equation"
  by (auto simp: b_end_def arrow_pos_def split: option.splits dest!: string_find_Some)

lemma extract_modeA_eq:
  "extract_modeA k equation =
     Inr (take (k + 2) (filter (\<lambda>c. c \<noteq> CHR '' '') (take (a_end equation) equation)))"
  by (simp add: extract_modeA_def extract_modes_eq a_end_le a_start_def)

lemma extract_modeB_eq:
  "extract_modeB k equation =
     Inr (take (k + 2) (filter (\<lambda>c. c \<noteq> CHR '' '')
            (take (b_end equation - b_start equation) (drop (b_start equation) equation))))"
  by (simp add: extract_modeB_def extract_modes_eq b_end_le)

lemma extract_modeC_eq:
  "extract_modeC k equation =
     Inr (take (k + 2) (filter (\<lambda>c. c \<noteq> CHR '' '') (drop (c_start equation) equation)))"
  by (simp add: extract_modeC_def extract_modes_eq c_end_def)

lemma Einsum_eq:
  "Einsum k sg equation A_shape A_strides B_shape B_strides =
     (if dots equation \<noteq> None then Inl BroadcastNotSupported
      else case extract_modeA k equation of Inl err \<Rightarrow> Inl err | Inr modeA \<Rightarrow>
           (case extract_modeB k equation of Inl err \<Rightarrow> Inl err | Inr modeB \<Rightarrow>
           (case extract_modeC k equation of Inl err \<Rightarrow> Inl err | Inr modeC \<Rightarrow>
              construct k sg (isImplicit equation) modeA modeB modeC
                A_shape A_strides B_shape B_strides
                ((init k A_shape B_shape)
                   \<lparr>numModesB_m := (if usesB equation then length B_shape else 0)\<rparr>))))"
  by (auto simp: Einsum_def Let_def bindE_def init_def split: sum.splits)

lemma extract_modeB_no_comma: "\<not> usesB equation \<Longrightarrow> extract_modeB k equation = Inr []"
  by (simp add: extract_modeB_eq b_end_def)

lemma extract_total:
  obtains modeA modeB modeC where
    "extract_modeA k equation = Inr modeA" "extract_modeB k equation = Inr modeB"
    "extract_modeC k equation = Inr modeC"
  using extract_modeA_eq extract_modeB_eq extract_modeC_eq by blast

lemma zip_take_length: "zip xs (take (length xs) ys) = zip xs ys"
proof (induction xs arbitrary: ys)
  case Nil
  show ?case by simp
next
  case (Cons x xs)
  then show ?case by (cases ys) auto
qed

lemma take_plus2_id: "length (take (k + 2) xs) \<le> k \<Longrightarrow> take (k + 2) xs = xs"
  by (cases "length xs \<le> k + 2") auto

subsection \<open>The constructor\<close>

lemma construct_eq:
  assumes nB: "nB \<le> length B_shape"
  shows "construct k sg implicit modeA modeB modeC A_shape A_strides B_shape B_strides
      ((init k A_shape B_shape)\<lparr>numModesB_m := nB\<rparr>) =
    (if length modeA \<noteq> length A_shape then Inl ModesShapeMismatchA
     else if length modeB \<noteq> nB then Inl ModesShapeMismatchB
     else if k < length A_shape then Inl TooManyModesA
     else if k < nB then Inl TooManyModesB
     else case redirectModeC k sg implicit modeA modeB modeC of
       Inl err \<Rightarrow> Inl err
     | Inr redirect \<Rightarrow>
         Inr \<lparr>numModesA_m = length A_shape,
              numModesB_m = nB,
              numModesC_m = length redirect,
              isInitialized_m = True,
              modesA_m = map Some modeA @ replicate (k - length A_shape) None,
              modesB_m = map Some modeB @ replicate (k - nB) None,
              modesC_m = map Some (take k redirect) @ replicate (k - length redirect) None,
              extentA_m = map Some A_shape @ replicate (k - length A_shape) None,
              extentB_m = map Some (take nB B_shape) @ replicate (k - nB) None,
              extentC_m = map (first_extent modeA A_shape modeB (take nB B_shape)) (take k redirect)
                            @ replicate (k - length redirect) None,
              stridesA_m = map (read_value A_strides) [0..<length A_shape]
                            @ replicate (k - length A_shape) None,
              stridesB_m = map (read_value B_strides) [0..<nB] @ replicate (k - nB) None,
              out_of_bounds =
                map (Pair ''A_strides'') [length A_strides..<length A_shape]
                @ map (Pair ''B_strides'') [length B_strides..<nB]
                @ concat (map (past_the_end (first_extent modeA A_shape modeB (take nB B_shape))
                                 redirect) [k..<length redirect])\<rparr>)"
proof -
  let ?s1 = "(init k A_shape B_shape)\<lparr>numModesB_m := nB\<rparr>"
  let ?nA = "length A_shape"
  show ?thesis
  proof (cases "length modeA = ?nA \<and> length modeB = nB \<and> ?nA \<le> k \<and> nB \<le> k")
    case False
    then show ?thesis by (auto simp: construct_def init_def)
  next
    case chk: True
    show ?thesis
    proof (cases "redirectModeC k sg implicit modeA modeB modeC")
      case (Inl err)
      then show ?thesis using chk by (simp add: construct_def init_def bindE_Inl)
    next
      case (Inr redirect)
      let ?fe = "first_extent modeA A_shape modeB (take nB B_shape)"
      let ?s2 = "?s1\<lparr>numModesC_m := length redirect\<rparr>"
      let ?s3 = "?s2\<lparr>modesA_m := map Some modeA @ replicate (k - ?nA) None,
                     extentA_m := map Some A_shape @ replicate (k - ?nA) None,
                     stridesA_m := map (read_value A_strides) [0..<?nA] @ replicate (k - ?nA) None,
                     out_of_bounds := map (Pair ''A_strides'') [length A_strides..<?nA]\<rparr>"
      let ?s4 = "?s3\<lparr>modesB_m := map Some modeB @ replicate (k - nB) None,
                     extentB_m := map Some (take nB B_shape) @ replicate (k - nB) None,
                     stridesB_m := map (read_value B_strides) [0..<nB] @ replicate (k - nB) None,
                     out_of_bounds := map (Pair ''A_strides'') [length A_strides..<?nA]
                        @ map (Pair ''B_strides'') [length B_strides..<nB]\<rparr>"
      let ?s5 = "?s4\<lparr>modesC_m := map Some (take k redirect) @ replicate (k - length redirect) None,
                     extentC_m := map ?fe (take k redirect) @ replicate (k - length redirect) None,
                     out_of_bounds := map (Pair ''A_strides'') [length A_strides..<?nA]
                        @ map (Pair ''B_strides'') [length B_strides..<nB]
                        @ concat (map (past_the_end ?fe redirect) [k..<length redirect])\<rparr>"
      have cA: "copyA 0 (numModesA_m ?s2) modeA A_shape A_strides ?s2 = ?s3"
        using chk by (subst copyA_eq) (auto simp: init_def filter_upt_from)
      have cB: "copyB 0 (numModesB_m ?s3) modeB B_shape B_strides ?s3 = ?s4"
        using chk nB by (subst copyB_eq) (auto simp: init_def filter_upt_from)
      have m: "min (length redirect) k = length (take k redirect)" by (simp add: min.commute)
      have cC: "outputC 0 (numModesC_m ?s4) redirect ?s4 = ?s5"
        using chk nB
        by (subst outputC_eq[where k = k and ma = modeA and ea = A_shape and mb = modeB
              and eb = "take nB B_shape"]) (auto simp: init_def min_def)
      show ?thesis
        using chk Inr unfolding construct_def
        by (simp only: bindE_Inr Let_def cA cB cC) (simp add: init_def)
    qed
  qed
qed

lemma Einsum_cases:
  assumes "extract_modeA k equation = Inr modeA" "extract_modeB k equation = Inr modeB"
    and "extract_modeC k equation = Inr modeC"
    and "nB = (if usesB equation then length B_shape else 0)"
  shows "Einsum k sg equation A_shape A_strides B_shape B_strides =
    (if dots equation \<noteq> None then Inl BroadcastNotSupported
     else if length modeA \<noteq> length A_shape then Inl ModesShapeMismatchA
     else if length modeB \<noteq> nB then Inl ModesShapeMismatchB
     else if k < length A_shape then Inl TooManyModesA
     else if k < nB then Inl TooManyModesB
     else case redirectModeC k sg (isImplicit equation) modeA modeB modeC of
       Inl err \<Rightarrow> Inl err
     | Inr redirect \<Rightarrow>
         Inr \<lparr>numModesA_m = length A_shape,
              numModesB_m = nB,
              numModesC_m = length redirect,
              isInitialized_m = True,
              modesA_m = map Some modeA @ replicate (k - length A_shape) None,
              modesB_m = map Some modeB @ replicate (k - nB) None,
              modesC_m = map Some (take k redirect) @ replicate (k - length redirect) None,
              extentA_m = map Some A_shape @ replicate (k - length A_shape) None,
              extentB_m = map Some (take nB B_shape) @ replicate (k - nB) None,
              extentC_m = map (first_extent modeA A_shape modeB (take nB B_shape)) (take k redirect)
                            @ replicate (k - length redirect) None,
              stridesA_m = map (read_value A_strides) [0..<length A_shape]
                            @ replicate (k - length A_shape) None,
              stridesB_m = map (read_value B_strides) [0..<nB] @ replicate (k - nB) None,
              out_of_bounds =
                map (Pair ''A_strides'') [length A_strides..<length A_shape]
                @ map (Pair ''B_strides'') [length B_strides..<nB]
                @ concat (map (past_the_end (first_extent modeA A_shape modeB (take nB B_shape))
                                 redirect) [k..<length redirect])\<rparr>)"
proof -
  have nB: "nB \<le> length B_shape" using assms(4) by simp
  show ?thesis
    unfolding Einsum_eq assms(1-3) sum.case assms(4)[symmetric] construct_eq[OF nB] ..
qed

subsection \<open>Sorting, dispatch and extents\<close>

lemma push_modes_eq:
  "i \<le> n \<Longrightarrow> n \<le> length modes \<Longrightarrow>
   push_modes name i n modes out = Inr (out @ take (n - i) (drop i modes))"
proof (induction "n - i" arbitrary: i out)
  case 0
  then show ?case by (subst push_modes.simps) simp
next
  case (Suc d)
  then have lt: "i < n" by simp
  have d: "d = n - Suc i" using Suc.hyps by simp
  have seg: "take (n - i) (drop i modes) = modes ! i # take (n - Suc i) (drop (Suc i) modes)"
    using lt Suc.prems by (metis Cons_nth_drop_Suc Suc_diff_Suc less_le_trans take_Suc_Cons)
  have "push_modes name i n modes out = push_modes name (Suc i) n modes (out @ [modes ! i])"
    using lt Suc.prems by (subst push_modes.simps) (simp add: at_def)
  also have "\<dots> = Inr ((out @ [modes ! i]) @ take (n - Suc i) (drop (Suc i) modes))"
    using lt Suc.prems by (intro Suc.hyps(1)[OF d]) simp_all
  finally show ?case by (simp add: seg)
qed

lemma std_sort_props:
  "sorted (map (char_value sg) (std_sort sg xs))" "mset (std_sort sg xs) = mset xs"
  "set (std_sort sg xs) = set xs" "length (std_sort sg xs) = length xs"
  by (simp_all add: std_sort_def)

lemma usesB_iff: "usesB equation = (CHR '','' \<in> set equation)"
  unfolding usesB_def comma_pos_def by (rule string_find_char)


lemma map_of_zip_None:
  "length xs \<le> length ys \<Longrightarrow> (map_of (zip xs ys) x = None) = (x \<notin> set xs)"
proof -
  assume l: "length xs \<le> length ys"
  have "zip xs ys = zip xs (take (length xs) ys)" by (simp add: zip_take_length)
  moreover have "length xs = length (take (length xs) ys)" using l by simp
  ultimately show ?thesis by (metis map_of_zip_is_None)
qed

lemma first_extent_None:
  "length modeA \<le> length A_shape \<Longrightarrow> length modeB \<le> length B_shape \<Longrightarrow>
   (first_extent modeA A_shape modeB B_shape m = None) = (m \<notin> set modeA \<union> set modeB)"
  by (cases "map_of (zip modeA A_shape) m")
     (use map_of_zip_None[of modeA A_shape m] map_of_zip_None[of modeB B_shape m] in auto)

lemma execute_all_succeed:
  assumes "isInitialized_m s" "\<forall>c. backend c"
  shows "execute backend C_strides s =
    (Inr (True,
       [cutensorInitTensorDescriptor TensorA (numModesA_m s) (extentA_m s) (stridesA_m s),
        cutensorInitTensorDescriptor TensorC (numModesC_m s) (extentC_m s) (map Some C_strides),
        cutensorGetAlignmentRequirement TensorA,
        cutensorGetAlignmentRequirement TensorC]
       @ (if numModesB_m s > 0
          then [cutensorInitTensorDescriptor TensorB (numModesB_m s) (extentB_m s) (stridesB_m s),
                cutensorGetAlignmentRequirement TensorB,
                cutensorInitContractionDescriptor (modesA_m s) (modesB_m s) (modesC_m s),
                cutensorInitContractionFind,
                cutensorContractionFindSetAttribute ''AUTOTUNE_MODE'',
                cutensorContractionFindSetAttribute ''INCREMENTAL_COUNT'',
                cutensorInitContractionPlan,
                cutensorContraction]
          else [cutensorReduction (modesA_m s) (modesC_m s)])), s)"
  using assms by (simp add: execute_def HANDLE_ERROR_def bindE_Inr)

subsection \<open>A space put into the equation\<close>

lemma shift_Suc:
  "map_option Suc (map_option (\<lambda>n. if n < k then n else n + 1) r)
     = map_option (\<lambda>n. if n < Suc k then n else n + 1) (map_option Suc r)"
  by (cases r) auto

lemma string_find_insert1:
  "c \<noteq> p \<Longrightarrow>
   string_find [p] (xs @ c # ys)
     = map_option (\<lambda>n. if n < length xs then n else n + 1) (string_find [p] (xs @ ys))"
proof (induction xs)
  case Nil
  then show ?case by (simp add: option.map_comp comp_def)
next
  case (Cons x xs)
  show ?case
  proof (cases "x = p")
    case True
    then show ?thesis by simp
  next
    case False
    then show ?thesis
      using Cons by (simp add: shift_Suc)
  qed
qed

lemma string_find_insert2:
  assumes "c \<noteq> p" "c \<noteq> q"
    and "\<forall>a. string_find [p, q] (xs @ ys) = Some a \<longrightarrow> Suc a \<noteq> length xs"
  shows "string_find [p, q] (xs @ c # ys)
     = map_option (\<lambda>n. if n < length xs then n else n + 1) (string_find [p, q] (xs @ ys))"
  using assms(3)
proof (induction xs)
  case Nil
  then show ?case using assms(1,2) by (simp add: option.map_comp comp_def)
next
  case (Cons x xs)
  show ?case
  proof (cases "prefix [p, q] (x # xs @ ys)")
    case True
    then have "string_find [p, q] ((x # xs) @ ys) = Some 0" by simp
    then have "xs \<noteq> []" using Cons.prems by auto
    then obtain z zs where xs: "xs = z # zs" by (cases xs) auto
    have "prefix [p, q] (x # xs @ c # ys)" using True xs by simp
    then show ?thesis using True by simp
  next
    case False
    have nf: "\<not> prefix [p, q] (x # xs @ c # ys)"
    proof (cases xs)
      case Nil
      then show ?thesis using assms(2) by simp
    next
      case (Cons z zs)
      then show ?thesis using False by simp
    qed
    have pre: "\<forall>a. string_find [p, q] (xs @ ys) = Some a \<longrightarrow> Suc a \<noteq> length xs"
      using Cons.prems False by simp
    have "string_find [p, q] ((x # xs) @ c # ys) = map_option Suc (string_find [p, q] (xs @ c # ys))"
      using nf by auto
    moreover have "string_find [p, q] ((x # xs) @ ys) = map_option Suc (string_find [p, q] (xs @ ys))"
      using False by auto
    ultimately show ?thesis
      using Cons.IH[OF pre] by (simp only: shift_Suc list.size(4)) simp
  qed
qed

lemma prefix_before:
  "prefix pat (us @ c # vs) \<Longrightarrow> c \<notin> set pat \<Longrightarrow> prefix pat us"
  by (auto simp: prefix_append prefix_Cons)

lemma string_find_insert_None:
  "c \<notin> set pat \<Longrightarrow> pat \<noteq> [] \<Longrightarrow> string_find pat (xs @ ys) = None \<Longrightarrow>
   string_find pat (xs @ c # ys) = None"
proof (induction xs)
  case Nil
  then have "\<not> prefix pat (c # ys)" by (cases pat) auto
  then show ?case using Nil by simp
next
  case (Cons x xs)
  have np: "\<not> prefix pat (x # xs @ ys)" using Cons.prems(3) by (auto split: if_splits)
  have "\<not> prefix pat ((x # xs) @ c # ys)"
  proof
    assume "prefix pat ((x # xs) @ c # ys)"
    then have "prefix pat (x # xs)" using Cons.prems(1) by (rule prefix_before)
    then have "prefix pat (x # xs @ ys)" by (metis append_Cons prefix_prefix)
    then show False using np by simp
  qed
  then show ?case using Cons np by (auto split: if_splits)
qed

lemma segment_insert:
  "filter (\<lambda>c. c \<noteq> CHR '' '')
     (take ((if q < length xs then q else q + 1) - (if p \<le> length xs then p else p + 1))
        (drop (if p \<le> length xs then p else p + 1) (xs @ CHR '' '' # ys)))
   = filter (\<lambda>c. c \<noteq> CHR '' '') (take (q - p) (drop p (xs @ ys)))"
proof (cases "p \<le> length xs")
  case pl: True
  show ?thesis
  proof (cases "q < length xs")
    case True
    then show ?thesis using pl by simp
  next
    case False
    then have "q + 1 - p - (length xs - p) = Suc (q - length xs)" "q - p - (length xs - p) = q - length xs"
      using pl by simp_all
    then show ?thesis using pl False by simp
  qed
next
  case False
  then show ?thesis by (cases "q < length xs") (simp_all add: Suc_diff_le)
qed

lemma comma_pos_insert:
  "comma_pos (xs @ CHR '' '' # ys)
     = map_option (\<lambda>n. if n < length xs then n else n + 1) (comma_pos (xs @ ys))"
  unfolding comma_pos_def by (rule string_find_insert1) simp

lemma arrow_pos_insert:
  "\<forall>a. arrow_pos (xs @ ys) = Some a \<longrightarrow> Suc a \<noteq> length xs \<Longrightarrow>
   arrow_pos (xs @ CHR '' '' # ys)
     = map_option (\<lambda>n. if n < length xs then n else n + 1) (arrow_pos (xs @ ys))"
  unfolding arrow_pos_def by (rule string_find_insert2) simp_all

lemma dots_insert: "dots (xs @ ys) = None \<Longrightarrow> dots (xs @ CHR '' '' # ys) = None"
  unfolding dots_def by (rule string_find_insert_None) simp_all

lemma filter_segment:
  "p' = (if p \<le> length xs then p else p + 1) \<Longrightarrow> q' = (if q < length xs then q else q + 1) \<Longrightarrow>
   filter (\<lambda>c. c \<noteq> CHR '' '') (take (q' - p') (drop p' (xs @ CHR '' '' # ys)))
   = filter (\<lambda>c. c \<noteq> CHR '' '') (take (q - p) (drop p (xs @ ys)))"
  using segment_insert[of q xs p ys] by simp

lemma extract_modeA_insert:
  assumes "\<forall>a. arrow_pos (xs @ ys) = Some a \<longrightarrow> Suc a \<noteq> length xs"
  shows "extract_modeA k (xs @ CHR '' '' # ys) = extract_modeA k (xs @ ys)"
proof -
  have e: "a_end (xs @ CHR '' '' # ys)
        = (if a_end (xs @ ys) < length xs then a_end (xs @ ys) else a_end (xs @ ys) + 1)"
    unfolding a_end_def arrow_pos_insert[OF assms] comma_pos_insert
    by (auto split: option.splits)
  have "filter (\<lambda>c. c \<noteq> CHR '' '')
          (take (a_end (xs @ CHR '' '' # ys) - 0) (drop 0 (xs @ CHR '' '' # ys)))
      = filter (\<lambda>c. c \<noteq> CHR '' '') (take (a_end (xs @ ys) - 0) (drop 0 (xs @ ys)))"
    by (rule filter_segment) (simp_all add: e)
  then show ?thesis unfolding extract_modeA_eq by simp
qed

lemma extract_modeB_insert:
  assumes "\<forall>a. arrow_pos (xs @ ys) = Some a \<longrightarrow> Suc a \<noteq> length xs"
  shows "extract_modeB k (xs @ CHR '' '' # ys) = extract_modeB k (xs @ ys)"
proof (cases "comma_pos (xs @ ys)")
  case None
  then have "\<not> usesB (xs @ ys)" "\<not> usesB (xs @ CHR '' '' # ys)"
    by (simp_all add: usesB_def comma_pos_insert)
  then show ?thesis by (simp add: extract_modeB_no_comma)
next
  case (Some c)
  have s: "b_start (xs @ CHR '' '' # ys)
        = (if b_start (xs @ ys) \<le> length xs then b_start (xs @ ys) else b_start (xs @ ys) + 1)"
    unfolding b_start_def comma_pos_insert Some by auto
  have e: "b_end (xs @ CHR '' '' # ys)
        = (if b_end (xs @ ys) < length xs then b_end (xs @ ys) else b_end (xs @ ys) + 1)"
    unfolding b_end_def usesB_def arrow_pos_insert[OF assms] comma_pos_insert Some
    by (auto split: option.splits)
  have "filter (\<lambda>c. c \<noteq> CHR '' '')
          (take (b_end (xs @ CHR '' '' # ys) - b_start (xs @ CHR '' '' # ys))
             (drop (b_start (xs @ CHR '' '' # ys)) (xs @ CHR '' '' # ys)))
      = filter (\<lambda>c. c \<noteq> CHR '' '')
          (take (b_end (xs @ ys) - b_start (xs @ ys)) (drop (b_start (xs @ ys)) (xs @ ys)))"
    using s e by (rule filter_segment)
  then show ?thesis unfolding extract_modeB_eq by simp
qed

lemma extract_modeC_insert:
  assumes "\<forall>a. arrow_pos (xs @ ys) = Some a \<longrightarrow> Suc a \<noteq> length xs"
  shows "extract_modeC k (xs @ CHR '' '' # ys) = extract_modeC k (xs @ ys)"
proof (cases "arrow_pos (xs @ ys)")
  case None
  then show ?thesis
    unfolding extract_modeC_eq c_start_def arrow_pos_insert[OF assms] by simp
next
  case (Some a)
  then have na: "Suc a \<noteq> length xs" using assms by simp
  have s: "c_start (xs @ CHR '' '' # ys)
        = (if c_start (xs @ ys) \<le> length xs then c_start (xs @ ys) else c_start (xs @ ys) + 1)"
    unfolding c_start_def arrow_pos_insert[OF assms] Some using na by auto
  have e: "length (xs @ CHR '' '' # ys)
        = (if length (xs @ ys) < length xs then length (xs @ ys) else length (xs @ ys) + 1)"
    by simp
  have "filter (\<lambda>c. c \<noteq> CHR '' '')
          (take (length (xs @ CHR '' '' # ys) - c_start (xs @ CHR '' '' # ys))
             (drop (c_start (xs @ CHR '' '' # ys)) (xs @ CHR '' '' # ys)))
      = filter (\<lambda>c. c \<noteq> CHR '' '')
          (take (length (xs @ ys) - c_start (xs @ ys)) (drop (c_start (xs @ ys)) (xs @ ys)))"
    using s e by (rule filter_segment)
  then show ?thesis unfolding extract_modeC_eq by simp
qed

subsection \<open>The accessors and the constructed object\<close>

lemma modesC_eq:
  "numModesC_m s = length redirect \<Longrightarrow> modesC_m s = map Some redirect @ rest \<Longrightarrow>
   modesC s = Inr (map Some redirect)"
  by (simp add: modesC_def push_modes_eq)

lemma modesA_eq:
  "numModesA_m s = length modeA \<Longrightarrow> modesA_m s = map Some modeA @ rest \<Longrightarrow>
   modesA s = Inr (map Some modeA)"
  by (simp add: modesA_def push_modes_eq)

lemma modesB_eq:
  "numModesB_m s = length modeB \<Longrightarrow> modesB_m s = map Some modeB @ rest \<Longrightarrow>
   modesB s = Inr (map Some modeB)"
  by (simp add: modesB_def push_modes_eq)

lemma read_extentC_eq:
  "i \<le> n \<Longrightarrow> n \<le> length (extentC_m s) \<Longrightarrow> length extentC = n \<Longrightarrow>
   read_extentC i n s extentC = Inr (take i extentC @ take (n - i) (drop i (extentC_m s)))"
proof (induction "n - i" arbitrary: i extentC)
  case 0
  then show ?case by (subst read_extentC.simps) simp
next
  case (Suc d)
  then have lt: "i < n" by simp
  have d: "d = n - Suc i" using Suc.hyps by simp
  let ?v = "extentC_m s ! i"
  have seg: "take (n - i) (drop i (extentC_m s)) = ?v # take (n - Suc i) (drop (Suc i) (extentC_m s))"
    using lt Suc.prems by (metis Cons_nth_drop_Suc Suc_diff_Suc less_le_trans take_Suc_Cons)
  have body: "read_extentC_body i s extentC = Inr (extentC[i := ?v])"
    using lt Suc.prems by (simp add: read_extentC_body_def at_def bindE_Inr)
  have "read_extentC i n s extentC = read_extentC (Suc i) n s (extentC[i := ?v])"
    using lt body by (subst read_extentC.simps) simp
  also have "\<dots> = Inr (take (Suc i) (extentC[i := ?v]) @ take (n - Suc i) (drop (Suc i) (extentC_m s)))"
    using lt Suc.prems by (intro Suc.hyps(1)[OF d]) simp_all
  finally show ?case using lt Suc.prems by (simp add: seg take_Suc_conv_app_nth)
qed

lemma read_extentC_throws:
  "i \<le> length (extentC_m s) \<Longrightarrow> length (extentC_m s) < n \<Longrightarrow> length extentC = n \<Longrightarrow>
   read_extentC i n s extentC = Inl (OutOfRange ''extentC_'')"
proof (induction "length (extentC_m s) - i" arbitrary: i extentC)
  case 0
  then have "read_extentC_body i s extentC = Inl (OutOfRange ''extentC_'')"
    by (simp add: read_extentC_body_def at_def bindE_Inl)
  then show ?case using 0 by (subst read_extentC.simps) simp
next
  case (Suc d)
  then have lt: "i < length (extentC_m s)" "i < n" by simp_all
  have d: "d = length (extentC_m s) - Suc i" using Suc.hyps by simp
  have body: "read_extentC_body i s extentC = Inr (extentC[i := extentC_m s ! i])"
    using lt by (simp add: read_extentC_body_def at_def bindE_Inr)
  have "read_extentC i n s extentC = read_extentC (Suc i) n s (extentC[i := extentC_m s ! i])"
    using lt body by (subst read_extentC.simps) simp
  also have "\<dots> = Inl (OutOfRange ''extentC_'')"
    using lt Suc.prems by (intro Suc.hyps(1)[OF d]) simp_all
  finally show ?case .
qed

lemma getOutputShape_eq:
  "isInitialized_m s \<Longrightarrow> numModesC_m s \<le> length (extentC_m s) \<Longrightarrow>
   getOutputShape s = (Inr (take (numModesC_m s) (extentC_m s)), s)"
  by (simp add: getOutputShape_def read_extentC_eq)

text \<open>Everything a completed construction fixes.\<close>

lemma Einsum_Inr:
  assumes "Einsum k sg equation A_shape A_strides B_shape B_strides = Inr s"
    and "extract_modeA k equation = Inr modeA" "extract_modeB k equation = Inr modeB"
    and "extract_modeC k equation = Inr modeC"
  obtains redirect where
    "redirectModeC k sg (isImplicit equation) modeA modeB modeC = Inr redirect"
    "dots equation = None"
    "length modeA = length A_shape" "length A_shape \<le> k"
    "length modeB = (if usesB equation then length B_shape else 0)" "length modeB \<le> k"
    "isInitialized_m s"
    "numModesA_m s = length modeA" "numModesB_m s = length modeB" "numModesC_m s = length redirect"
    "modesA_m s = map Some modeA @ replicate (k - length modeA) None"
    "modesB_m s = map Some modeB @ replicate (k - length modeB) None"
    "modesC_m s = map Some (take k redirect) @ replicate (k - length redirect) None"
    "extentC_m s = map (first_extent modeA A_shape modeB B_shape) (take k redirect)
                     @ replicate (k - length redirect) None"
    "stridesA_m s = map (read_value A_strides) [0..<length modeA] @ replicate (k - length modeA) None"
    "stridesB_m s = map (read_value B_strides) [0..<length modeB] @ replicate (k - length modeB) None"
    "out_of_bounds s =
       map (Pair ''A_strides'') [length A_strides..<length modeA]
       @ map (Pair ''B_strides'') [length B_strides..<length modeB]
       @ concat (map (past_the_end (first_extent modeA A_shape modeB B_shape) redirect)
                   [k..<length redirect])"
proof -
  define nB where "nB = (if usesB equation then length B_shape else 0)"
  note c = Einsum_cases[OF assms(2-4) nB_def, where sg = sg and A_shape = A_shape
      and A_strides = A_strides and B_strides = B_strides]
  from assms(1) c have chk: "dots equation = None" "length modeA = length A_shape"
      "length modeB = nB" "length A_shape \<le> k" "nB \<le> k"
    by (auto split: if_splits)
  from assms(1) c chk obtain redirect where
    r: "redirectModeC k sg (isImplicit equation) modeA modeB modeC = Inr redirect"
    by (auto split: if_splits sum.splits)
  have z: "zip modeB (take nB B_shape) = zip modeB B_shape"
    using chk(3) zip_take_length[of modeB B_shape] by simp
  from assms(1) c chk r have s: "s = \<lparr>numModesA_m = length A_shape,
              numModesB_m = nB,
              numModesC_m = length redirect,
              isInitialized_m = True,
              modesA_m = map Some modeA @ replicate (k - length A_shape) None,
              modesB_m = map Some modeB @ replicate (k - nB) None,
              modesC_m = map Some (take k redirect) @ replicate (k - length redirect) None,
              extentA_m = map Some A_shape @ replicate (k - length A_shape) None,
              extentB_m = map Some (take nB B_shape) @ replicate (k - nB) None,
              extentC_m = map (first_extent modeA A_shape modeB (take nB B_shape)) (take k redirect)
                            @ replicate (k - length redirect) None,
              stridesA_m = map (read_value A_strides) [0..<length A_shape]
                            @ replicate (k - length A_shape) None,
              stridesB_m = map (read_value B_strides) [0..<nB] @ replicate (k - nB) None,
              out_of_bounds =
                map (Pair ''A_strides'') [length A_strides..<length A_shape]
                @ map (Pair ''B_strides'') [length B_strides..<nB]
                @ concat (map (past_the_end (first_extent modeA A_shape modeB (take nB B_shape))
                                 redirect) [k..<length redirect])\<rparr>"
    by (auto split: if_splits)
  show thesis
    using chk r by (intro that[of redirect, folded nB_def]) (simp_all add: s[unfolded z])
qed

subsection \<open>The bound on an implicit output\<close>

text \<open>With implicit output \<^verbatim>\<open>copyModesIf\<close> counts what it appends: once the checks on the
  operands have passed, more than \<open>kMaxNumModes\<close> non-contracted modes make the constructor
  fail with the error for too many output modes, a ParseError, and an object constructed
  from an equation without an arrow has at most \<open>kMaxNumModes\<close> output modes.\<close>

lemma implicit_output_mode_count_bounded:
  "(isImplicit equation \<and> dots equation = None
      \<and> extract_modeA kMaxNumModes equation = Inr modeA
      \<and> extract_modeB kMaxNumModes equation = Inr modeB
      \<and> length modeA = length A_shape
      \<and> length modeB = (if usesB equation then length B_shape else 0)
      \<and> length modeA \<le> kMaxNumModes \<and> length modeB \<le> kMaxNumModes
      \<and> kMaxNumModes < length (filter (\<lambda>m. m \<notin> set modeB) modeA)
                         + length (filter (\<lambda>m. m \<notin> set modeA) modeB)
    \<longrightarrow> Einsum kMaxNumModes signed_char equation A_shape A_strides B_shape B_strides
          = Inl TooManyModesOutput)
   \<and> ParseError TooManyModesOutput
   \<and> (Einsum kMaxNumModes signed_char equation' A_shape' A_strides' B_shape' B_strides' = Inr s
        \<and> isImplicit equation'
    \<longrightarrow> numModesC_m s \<le> kMaxNumModes)"
proof (intro conjI impI)
  assume a: "isImplicit equation \<and> dots equation = None
      \<and> extract_modeA kMaxNumModes equation = Inr modeA
      \<and> extract_modeB kMaxNumModes equation = Inr modeB
      \<and> length modeA = length A_shape
      \<and> length modeB = (if usesB equation then length B_shape else 0)
      \<and> length modeA \<le> kMaxNumModes \<and> length modeB \<le> kMaxNumModes
      \<and> kMaxNumModes < length (filter (\<lambda>m. m \<notin> set modeB) modeA)
                         + length (filter (\<lambda>m. m \<notin> set modeA) modeB)"
  obtain modeC where mc: "extract_modeC kMaxNumModes equation = Inr modeC"
    using extract_modeC_eq by blast
  have r: "redirectModeC kMaxNumModes signed_char (isImplicit equation) modeA modeB modeC
            = Inl TooManyModesOutput"
    using a by (simp add: redirectModeC_implicit)
  show "Einsum kMaxNumModes signed_char equation A_shape A_strides B_shape B_strides
          = Inl TooManyModesOutput"
    using a r
    by (subst Einsum_cases[where modeA = modeA and modeB = modeB and modeC = modeC, OF _ _ mc refl])
       auto
next
  show "ParseError TooManyModesOutput" by (simp add: ParseError_def)
next
  assume ok: "Einsum kMaxNumModes signed_char equation' A_shape' A_strides' B_shape' B_strides' = Inr s
      \<and> isImplicit equation'"
  obtain modeA modeB modeC where m: "extract_modeA kMaxNumModes equation' = Inr modeA"
      "extract_modeB kMaxNumModes equation' = Inr modeB"
      "extract_modeC kMaxNumModes equation' = Inr modeC"
    by (rule extract_total)
  show "numModesC_m s \<le> kMaxNumModes"
  proof (rule Einsum_Inr[OF ok[THEN conjunct1] m], goal_cases)
    case (1 redirect)
    then show ?case
      using ok by (auto simp: redirectModeC_implicit Let_def std_sort_props split: if_splits)
  qed
qed

section \<open>The claims\<close>

text \<open>
  C1 as stated fails. With the explicit output \<^verbatim>\<open>j\<close>, a mode of neither operand, the
  constructor throws nothing: the object is complete, and the cell of \<^verbatim>\<open>extentC_\<close> for the
  mode has never been written.
\<close>

theorem unresolvable_output_mode_counterexample:
  "Einsum 2 True ''i->j'' [2] [1] [] [] =
     Inr \<lparr>numModesA_m = 1, numModesB_m = 0, numModesC_m = 1, isInitialized_m = True,
           modesA_m = [Some CHR ''i'', None], modesB_m = [None, None],
           modesC_m = [Some CHR ''j'', None],
           extentA_m = [Some 2, None], extentB_m = [None, None], extentC_m = [None, None],
           stridesA_m = [Some 1, None], stridesB_m = [None, None], out_of_bounds = []\<rparr>"
  by code_simp

text \<open>
  C1, amended. The constructor does not check that an explicit output mode occurs in an
  operand. When the equation has no broadcast marker, the mode counts of the operands match
  their shapes and do not exceed \<open>kMaxNumModes\<close>, the output has at most \<open>kMaxNumModes\<close>
  modes and the strides are long enough, the construction succeeds whatever the output
  modes are; the output modes are those written in the equation, and \<^verbatim>\<open>getOutputShape\<close> has
  a value at a position exactly when the mode there occurs in an operand.
\<close>

theorem unresolvable_output_mode_unchecked:
  assumes "dots equation = None" and "arrow_pos equation = Some a"
    and "extract_modeA kMaxNumModes equation = Inr modeA"
    and "extract_modeB kMaxNumModes equation = Inr modeB"
    and "extract_modeC kMaxNumModes equation = Inr modeC"
    and "length modeA = length A_shape"
    and "length modeB = (if CHR '','' \<in> set equation then length B_shape else 0)"
    and "length modeA \<le> kMaxNumModes" and "length modeB \<le> kMaxNumModes"
    and "length modeC \<le> kMaxNumModes"
    and "length modeA \<le> length A_strides" and "length modeB \<le> length B_strides"
  shows "\<exists>s sh. Einsum kMaxNumModes signed_char equation A_shape A_strides B_shape B_strides = Inr s
           \<and> modesC s = Inr (map Some modeC)
           \<and> fst (getOutputShape s) = Inr sh \<and> length sh = length modeC
           \<and> (\<forall>i < length modeC.
                 sh ! i = first_extent modeA A_shape modeB B_shape (modeC ! i)
                 \<and> (sh ! i = None) = (modeC ! i \<notin> set modeA \<union> set modeB))"
proof -
  define nB where "nB = (if usesB equation then length B_shape else 0)"
  have ex: "\<not> isImplicit equation" using assms(2) by (simp add: isImplicit_def)
  have lb: "length modeB = nB" using assms(7) by (simp add: nB_def usesB_iff)
  have lbs: "length modeB \<le> length B_shape" using assms(7) by (simp split: if_splits)
  let ?fe = "first_extent modeA A_shape modeB B_shape"
  have "\<exists>s. Einsum kMaxNumModes signed_char equation A_shape A_strides B_shape B_strides = Inr s"
    using assms(1,6,8,9) lb
    by (subst Einsum_cases[OF assms(3,4,5) nB_def]) (simp add: redirectModeC_explicit ex)
  then obtain s where
    ok: "Einsum kMaxNumModes signed_char equation A_shape A_strides B_shape B_strides = Inr s" ..
  show ?thesis
  proof (rule Einsum_Inr[OF ok assms(3,4,5)], goal_cases)
    case (1 redirect)
    have red: "redirect = modeC" using 1(1) ex by (simp add: redirectModeC_explicit)
    have mc: "modesC_m s = map Some modeC @ replicate (kMaxNumModes - length modeC) None"
      using 1(13) assms(10) red by simp
    have ec: "extentC_m s = map ?fe modeC @ replicate (kMaxNumModes - length modeC) None"
      using 1(14) assms(10) red by simp
    have c: "modesC s = Inr (map Some modeC)" using 1(10) mc unfolding red by (rule modesC_eq)
    have "getOutputShape s = (Inr (take (numModesC_m s) (extentC_m s)), s)"
      using 1(7,10) ec assms(10) red by (intro getOutputShape_eq) simp_all
    then have g: "fst (getOutputShape s) = Inr (map ?fe modeC)"
      using 1(10) ec red by simp
    have "\<forall>i < length modeC. map ?fe modeC ! i = ?fe (modeC ! i)
            \<and> (map ?fe modeC ! i = None) = (modeC ! i \<notin> set modeA \<union> set modeB)"
      using first_extent_None[of modeA A_shape modeB B_shape] assms(6) lbs by simp
    then show ?case
      using ok c g by (intro exI[of _ s] exI[of _ "map ?fe modeC"]) simp
  qed
qed

theorem unresolvable_output_mode_unchecked_witness:
  "\<exists>s sh. Einsum 2 True ''i->ij'' [2] [1] [] [] = Inr s
           \<and> modesC s = Inr (map Some ''ij'')
           \<and> fst (getOutputShape s) = Inr sh \<and> sh = [Some 2, None]"
proof -
  have h: "dots ''i->ij'' = None" "arrow_pos ''i->ij'' = Some 1"
    "extract_modeA 2 ''i->ij'' = Inr ''i''" "extract_modeB 2 ''i->ij'' = Inr []"
    "extract_modeC 2 ''i->ij'' = Inr ''ij''"
    "length ''i'' = length [2 :: int]"
    "length ([] :: string) = (if CHR '','' \<in> set ''i->ij'' then length ([] :: int list) else 0)"
    "length ''i'' \<le> 2" "length ([] :: string) \<le> 2" "length ''ij'' \<le> 2"
    "length ''i'' \<le> length [1 :: int]" "length ([] :: string) \<le> length ([] :: int list)"
    by code_simp+
  obtain s sh where r: "Einsum 2 True ''i->ij'' [2] [1] [] [] = Inr s"
      "modesC s = Inr (map Some ''ij'')" "fst (getOutputShape s) = Inr sh" "length sh = length ''ij''"
      "\<forall>i < length ''ij''. sh ! i = first_extent ''i'' [2] [] [] (''ij'' ! i)
                 \<and> (sh ! i = None) = (''ij'' ! i \<notin> set ''i'' \<union> set [])"
    using unresolvable_output_mode_unchecked[OF h, of True] by (elim exE conjE)
  have "sh ! 0 = Some 2" "sh ! 1 = None" using r(5) by simp_all
  then have "sh = [Some 2, None]" using r(4) by (auto simp: list_eq_iff_nth_eq less_Suc_eq)
  with r(1-3) show ?thesis by blast
qed

text \<open>
  C2. Implicit output (no \<^verbatim>\<open>->\<close>): after a successful construction the output modes are the
  modes of the first operand that occur nowhere in the second, followed by the modes of the
  second that occur nowhere in the first, sorted by ascending character value. As a set they
  are the modes that occur in exactly one operand, and no mode of both operands is among them.
  A mode repeated within one operand is kept as often as it occurs.
\<close>

theorem implicit_output_modes:
  assumes "Einsum kMaxNumModes signed_char equation A_shape A_strides B_shape B_strides = Inr s"
    and "isImplicit equation"
    and "extract_modeA kMaxNumModes equation = Inr modeA"
    and "extract_modeB kMaxNumModes equation = Inr modeB"
  shows "\<exists>out. modesA s = Inr (map Some modeA) \<and> modesB s = Inr (map Some modeB)
           \<and> modesC s = Inr (map Some out) \<and> numModesC_m s = length out
           \<and> out = std_sort signed_char
                     (filter (\<lambda>m. m \<notin> set modeB) modeA @ filter (\<lambda>m. m \<notin> set modeA) modeB)
           \<and> sorted (map (char_value signed_char) out)
           \<and> mset out = mset (filter (\<lambda>m. m \<notin> set modeB) modeA)
                         + mset (filter (\<lambda>m. m \<notin> set modeA) modeB)
           \<and> set out = (set modeA - set modeB) \<union> (set modeB - set modeA)
           \<and> set out \<inter> (set modeA \<inter> set modeB) = {}"
proof -
  obtain modeC where mc: "extract_modeC kMaxNumModes equation = Inr modeC"
    using extract_modeC_eq by blast
  let ?nc = "filter (\<lambda>m. m \<notin> set modeB) modeA @ filter (\<lambda>m. m \<notin> set modeA) modeB"
  show ?thesis
  proof (rule Einsum_Inr[OF assms(1,3,4) mc], goal_cases)
    case (1 redirect)
    have red: "redirect = std_sort signed_char ?nc" and len: "length redirect \<le> kMaxNumModes"
      using 1(1) assms(2) by (auto simp: redirectModeC_implicit Let_def std_sort_props split: if_splits)
    have mc: "modesC_m s = map Some redirect @ replicate (kMaxNumModes - length redirect) None"
      using 1(13) len by simp
    have a: "modesA s = Inr (map Some modeA)" using 1(8,11) by (rule modesA_eq)
    have b: "modesB s = Inr (map Some modeB)" using 1(9,12) by (rule modesB_eq)
    have c: "modesC s = Inr (map Some redirect)" using 1(10) mc by (rule modesC_eq)
    have st: "set redirect = (set modeA - set modeB) \<union> (set modeB - set modeA)"
      unfolding red std_sort_props(3) by auto
    have ms: "mset redirect = mset (filter (\<lambda>m. m \<notin> set modeB) modeA)
                         + mset (filter (\<lambda>m. m \<notin> set modeA) modeB)"
      unfolding red std_sort_props(2) by simp
    have so: "sorted (map (char_value signed_char) redirect)"
      unfolding red by (rule std_sort_props)
    have dj: "set redirect \<inter> (set modeA \<inter> set modeB) = {}"
      unfolding st by auto
    show ?case
      using a b c 1(10) red so ms st dj by (intro exI[of _ redirect] conjI)
  qed
qed

theorem implicit_output_modes_witness:
  "isImplicit ''ij,jk''
   \<and> (case Einsum 2 True ''ij,jk'' [2, 3] [3, 1] [3, 4] [4, 1] of
        Inl err \<Rightarrow> False
      | Inr s \<Rightarrow> modesC s = Inr (map Some ''ik'') \<and> numModesC_m s = 2)"
proof -
  let ?s = "\<lparr>numModesA_m = 2, numModesB_m = 2, numModesC_m = 2, isInitialized_m = True,
             modesA_m = map Some ''ij'', modesB_m = map Some ''jk'', modesC_m = map Some ''ik'',
             extentA_m = [Some 2, Some 3], extentB_m = [Some 3, Some 4],
             extentC_m = [Some 2, Some 4],
             stridesA_m = [Some 3, Some 1], stridesB_m = [Some 4, Some 1], out_of_bounds = []\<rparr>"
  have h1: "Einsum 2 True ''ij,jk'' [2, 3] [3, 1] [3, 4] [4, 1] = Inr ?s"
    by code_simp
  have h2: "isImplicit ''ij,jk''" by code_simp
  have h3: "extract_modeA 2 ''ij,jk'' = Inr ''ij''" by code_simp
  have h4: "extract_modeB 2 ''ij,jk'' = Inr ''jk''" by code_simp
  have e: "std_sort True (filter (\<lambda>m. m \<notin> set ''jk'') ''ij'' @ filter (\<lambda>m. m \<notin> set ''ij'') ''jk'')
             = ''ik''"
    by code_simp
  have "modesC ?s = Inr (map Some ''ik'') \<and> numModesC_m ?s = 2"
    using implicit_output_modes[OF h1 h2 h3 h4] unfolding e by (elim exE conjE) simp
  then show ?thesis unfolding h1 using h2 by simp
qed

text \<open>
  C3 as stated fails. Without a comma the second operand is switched off and its strides are
  never read, however short they are; and a construction that fails a check stops before any
  stride is read.
\<close>

theorem strides_read_counterexample:
  "length ([] :: int list) < length [7 :: int]
   \<and> Einsum 2 True ''ij'' [2, 3] [3, 1] [7] [] =
     Inr \<lparr>numModesA_m = 2, numModesB_m = 0, numModesC_m = 2, isInitialized_m = True,
           modesA_m = [Some CHR ''i'', Some CHR ''j''], modesB_m = [None, None],
           modesC_m = [Some CHR ''i'', Some CHR ''j''],
           extentA_m = [Some 2, Some 3], extentB_m = [None, None],
           extentC_m = [Some 2, Some 3],
           stridesA_m = [Some 3, Some 1], stridesB_m = [None, None],
           out_of_bounds = []\<rparr>
   \<and> length ([] :: int list) < length [2 :: int, 3]
   \<and> Einsum 2 True ''ijk'' [2, 3] [] [] [] = Inl ModesShapeMismatchA"
  by code_simp

text \<open>
  C3, amended. A construction that passes the checks and resolves its output modes (no
  broadcast marker, mode counts equal to the shape lengths and at most \<open>kMaxNumModes\<close>)
  returns an object. On the way the first loop reads \<^verbatim>\<open>A_strides\<close> at every index below the
  length of \<^verbatim>\<open>A_shape\<close>, and the second loop, which runs after it whatever the first one
  read, reads \<^verbatim>\<open>B_strides\<close> at every index below \<^verbatim>\<open>numModesB_\<close>: the length of \<^verbatim>\<open>B_shape\<close>
  when the equation has a comma, 0 otherwise. The reads outside \<^verbatim>\<open>A_strides\<close> are those at
  the indices from its length up to the length of \<^verbatim>\<open>A_shape\<close>, the reads outside
  \<^verbatim>\<open>B_strides\<close> those from its length up to \<^verbatim>\<open>numModesB_\<close>. So \<^verbatim>\<open>A_strides\<close> is read out of
  bounds exactly when it is shorter than \<^verbatim>\<open>A_shape\<close>, and \<^verbatim>\<open>B_strides\<close> exactly when the
  equation has a comma and \<^verbatim>\<open>B_strides\<close> is shorter than \<^verbatim>\<open>B_shape\<close>. When the output has at
  most \<open>kMaxNumModes\<close> modes, so that nothing is stored past an array afterwards, the stride
  cells of the object hold what the reads gave.
\<close>

theorem strides_out_of_bounds:
  assumes "dots equation = None"
    and "extract_modeA kMaxNumModes equation = Inr modeA"
    and "extract_modeB kMaxNumModes equation = Inr modeB"
    and "extract_modeC kMaxNumModes equation = Inr modeC"
    and "length modeA = length A_shape"
    and "length modeB = (if CHR '','' \<in> set equation then length B_shape else 0)"
    and "length modeA \<le> kMaxNumModes" and "length modeB \<le> kMaxNumModes"
    and "redirectModeC kMaxNumModes signed_char (isImplicit equation) modeA modeB modeC = Inr redirect"
  shows "\<exists>s. Einsum kMaxNumModes signed_char equation A_shape A_strides B_shape B_strides = Inr s
          \<and> numModesB_m s = (if CHR '','' \<in> set equation then length B_shape else 0)
          \<and> {i. (''A_strides'', i) \<in> set (out_of_bounds s)} = {length A_strides..<length A_shape}
          \<and> {i. (''B_strides'', i) \<in> set (out_of_bounds s)} = {length B_strides..<numModesB_m s}
          \<and> (\<exists>i. (''A_strides'', i) \<in> set (out_of_bounds s)) = (length A_strides < length A_shape)
          \<and> (\<exists>i. (''B_strides'', i) \<in> set (out_of_bounds s))
              = (CHR '','' \<in> set equation \<and> length B_strides < length B_shape)
          \<and> (length redirect \<le> kMaxNumModes \<longrightarrow>
                (\<forall>i < length A_shape. stridesA_m s ! i = read_value A_strides i)
                \<and> (\<forall>i < numModesB_m s. stridesB_m s ! i = read_value B_strides i))"
proof -
  define nB where "nB = (if usesB equation then length B_shape else 0)"
  have lb: "length modeB = nB" using assms(6) by (simp add: nB_def usesB_iff)
  have nb: "nB = (if CHR '','' \<in> set equation then length B_shape else 0)"
    by (simp add: nB_def usesB_iff)
  have "\<exists>s. Einsum kMaxNumModes signed_char equation A_shape A_strides B_shape B_strides = Inr s"
    using assms(1,5,7,8,9) lb
    by (subst Einsum_cases[OF assms(2,3,4) nB_def]) simp
  then obtain s where
    ok: "Einsum kMaxNumModes signed_char equation A_shape A_strides B_shape B_strides = Inr s" ..
  show ?thesis
  proof (rule Einsum_Inr[OF ok assms(2,3,4)], goal_cases)
    case (1 redirect')
    let ?fe = "first_extent modeA A_shape modeB B_shape"
    have past: "(''A_strides'', i) \<notin> set (concat (map (past_the_end ?fe redirect')
                     [kMaxNumModes..<length redirect']))"
         "(''B_strides'', i) \<notin> set (concat (map (past_the_end ?fe redirect')
                     [kMaxNumModes..<length redirect']))" for i
      by auto
    have a: "{i. (''A_strides'', i) \<in> set (out_of_bounds s)} = {length A_strides..<length A_shape}"
      unfolding 1(17) using past assms(5) by auto
    have b: "{i. (''B_strides'', i) \<in> set (out_of_bounds s)} = {length B_strides..<numModesB_m s}"
      unfolding 1(17) using past 1(9) by auto
    have n: "numModesB_m s = (if CHR '','' \<in> set equation then length B_shape else 0)"
      using 1(9) lb nb by simp
    have a': "(\<exists>i. (''A_strides'', i) \<in> set (out_of_bounds s)) = (length A_strides < length A_shape)"
    proof -
      have "(\<exists>i. (''A_strides'', i) \<in> set (out_of_bounds s))
              = ({i. (''A_strides'', i) \<in> set (out_of_bounds s)} \<noteq> {})" by auto
      then show ?thesis unfolding a by simp
    qed
    have b': "(\<exists>i. (''B_strides'', i) \<in> set (out_of_bounds s))
              = (CHR '','' \<in> set equation \<and> length B_strides < length B_shape)"
    proof -
      have "(\<exists>i. (''B_strides'', i) \<in> set (out_of_bounds s))
              = ({i. (''B_strides'', i) \<in> set (out_of_bounds s)} \<noteq> {})" by auto
      then show ?thesis unfolding b n by simp
    qed
    have sa: "\<forall>i < length A_shape. stridesA_m s ! i = read_value A_strides i"
      unfolding 1(15) using assms(5) by (simp add: nth_append)
    have sb: "\<forall>i < numModesB_m s. stridesB_m s ! i = read_value B_strides i"
      unfolding 1(16) 1(9) by (simp add: nth_append)
    show ?case using ok n a b a' b' sa sb by (intro exI[of _ s] conjI impI)
  qed
qed

theorem strides_out_of_bounds_witness:
  "\<exists>s. Einsum 2 True ''ij,jk'' [2, 3] [] [3, 4] [4] = Inr s
      \<and> {i. (''A_strides'', i) \<in> set (out_of_bounds s)} = {0..<2}
      \<and> {i. (''B_strides'', i) \<in> set (out_of_bounds s)} = {1..<2}
      \<and> stridesA_m s ! 0 = None \<and> stridesA_m s ! 1 = None
      \<and> stridesB_m s ! 0 = Some 4 \<and> stridesB_m s ! 1 = None"
proof -
  have h: "dots ''ij,jk'' = None"
    "extract_modeA 2 ''ij,jk'' = Inr ''ij''" "extract_modeB 2 ''ij,jk'' = Inr ''jk''"
    "extract_modeC 2 ''ij,jk'' = Inr []"
    "length ''ij'' = length [2 :: int, 3]"
    "length ''jk'' = (if CHR '','' \<in> set ''ij,jk'' then length [3 :: int, 4] else 0)"
    "length ''ij'' \<le> 2" "length ''jk'' \<le> 2"
    "redirectModeC 2 True (isImplicit ''ij,jk'') ''ij'' ''jk'' [] = Inr ''ik''"
    by code_simp+
  obtain s where r: "Einsum 2 True ''ij,jk'' [2, 3] [] [3, 4] [4] = Inr s"
    "numModesB_m s = (if CHR '','' \<in> set ''ij,jk'' then length [3 :: int, 4] else 0)"
    "{i. (''A_strides'', i) \<in> set (out_of_bounds s)} = {length ([] :: int list)..<length [2 :: int, 3]}"
    "{i. (''B_strides'', i) \<in> set (out_of_bounds s)} = {length [4 :: int]..<numModesB_m s}"
    "length ''ik'' \<le> 2 \<longrightarrow>
       (\<forall>i < length [2 :: int, 3]. stridesA_m s ! i = read_value [] i)
       \<and> (\<forall>i < numModesB_m s. stridesB_m s ! i = read_value [4] i)"
    using strides_out_of_bounds[OF h, of "[]" "[4]"] by (elim exE conjE)
  have n: "numModesB_m s = 2" using r(2) by simp
  have a: "{i. (''A_strides'', i) \<in> set (out_of_bounds s)} = {0..<2}"
    using r(3) by (simp add: numeral_2_eq_2)
  have b: "{i. (''B_strides'', i) \<in> set (out_of_bounds s)} = {1..<2}" using r(4) n by simp
  have c: "stridesA_m s ! 0 = None" "stridesA_m s ! 1 = None" using r(5) by simp_all
  have d: "stridesB_m s ! 0 = Some 4" "stridesB_m s ! 1 = None" using r(5) n by simp_all
  show ?thesis using r(1) a b c d by (intro exI[of _ s] conjI)
qed

text \<open>
  C4. The choice is to follow the comma, and \<^verbatim>\<open>execute\<close> is documented to compute
  \<^verbatim>\<open>A,B->C\<close>. The code misses one case. In \<^verbatim>\<open>ij,->ij\<close> there is a comma, so the constructor
  keeps the second operand (\<^verbatim>\<open>usesB\<close>); its shape is empty, the construction succeeds with
  \<^verbatim>\<open>numModesB_\<close> = 0 and no access outside a container; and \<^verbatim>\<open>execute\<close>, which tests
  \<^verbatim>\<open>numModesB_ > 0\<close> and not the comma, makes the reduction call on the first operand alone,
  with a backend whose calls all succeed.
\<close>

theorem dispatch_rank0_second_operand:
  "usesB ''ij,->ij''
   \<and> (case Einsum 2 True ''ij,->ij'' [2, 3] [3, 1] [] [] of
        Inl err \<Rightarrow> False
      | Inr s \<Rightarrow>
          numModesB_m s = 0 \<and> out_of_bounds s = []
          \<and> fst (execute (\<lambda>c. True) [3, 1] s) =
            Inr (True,
              [cutensorInitTensorDescriptor TensorA 2 [Some 2, Some 3] [Some 3, Some 1],
               cutensorInitTensorDescriptor TensorC 2 [Some 2, Some 3] [Some 3, Some 1],
               cutensorGetAlignmentRequirement TensorA,
               cutensorGetAlignmentRequirement TensorC,
               cutensorReduction [Some CHR ''i'', Some CHR ''j''] [Some CHR ''i'', Some CHR ''j'']]))"
  by code_simp

text \<open>
  C5 as stated fails. Only the space is removed: a tab after the arrow is an output mode, so
  \<^verbatim>\<open>ij->j<TAB>i\<close> has three output modes. The extraction stops after \<open>kMaxNumModes + 2\<close>
  characters: of the five characters after the arrow of \<^verbatim>\<open>ij->ijiji\<close>, with \<open>kMaxNumModes\<close>
  = 2, four are counted. And the array \<^verbatim>\<open>modesC_\<close> has \<open>kMaxNumModes\<close> cells: the three output
  modes of \<^verbatim>\<open>ij->iji\<close> are counted, and \<^verbatim>\<open>modesC()\<close>, which reads the cells with \<^verbatim>\<open>at\<close>,
  throws at the third.
\<close>

theorem explicit_output_counterexample:
  "arrow_pos [CHR ''i'', CHR ''j'', CHR ''-'', CHR ''>'', CHR ''j'', CHR 0x09, CHR ''i''] = Some 2
   \<and> (case Einsum 3 True [CHR ''i'', CHR ''j'', CHR ''-'', CHR ''>'', CHR ''j'', CHR 0x09, CHR ''i'']
              [2, 3] [3, 1] [] [] of
        Inl err \<Rightarrow> False
      | Inr s \<Rightarrow> modesC s = Inr [Some CHR ''j'', Some CHR 0x09, Some CHR ''i'']
                 \<and> numModesC_m s = 3 \<and> out_of_bounds s = [])
   \<and> arrow_pos ''ij->ijiji'' = Some 2
   \<and> length (filter (\<lambda>c. c \<noteq> CHR '' '') (drop (2 + 2) ''ij->ijiji'')) = 5
   \<and> (case Einsum 2 True ''ij->ijiji'' [2, 3] [3, 1] [] [] of
        Inl err \<Rightarrow> False
      | Inr s \<Rightarrow> numModesC_m s = 4)
   \<and> (case Einsum 2 True ''ij->iji'' [2, 3] [3, 1] [] [] of
        Inl err \<Rightarrow> False
      | Inr s \<Rightarrow> numModesC_m s = 3 \<and> length (modesC_m s) = 2
                 \<and> modesC s = Inl (OutOfRange ''modesC_''))"
  by code_simp

text \<open>
  C5, amended. Explicit output of at most \<open>kMaxNumModes\<close> modes: after a successful
  construction the output modes are the characters after the first \<^verbatim>\<open>->\<close> other than the
  space (any other whitespace character is kept as a mode), in their order in the equation,
  neither sorted nor reordered, and their number is the output mode count.
\<close>

theorem explicit_output_verbatim:
  assumes "Einsum kMaxNumModes signed_char equation A_shape A_strides B_shape B_strides = Inr s"
    and "arrow_pos equation = Some a"
    and "length (filter (\<lambda>c. c \<noteq> CHR '' '') (drop (a + 2) equation)) \<le> kMaxNumModes"
  shows "take 2 (drop a equation) = ''->''
         \<and> modesC s = Inr (map Some (filter (\<lambda>c. c \<noteq> CHR '' '') (drop (a + 2) equation)))
         \<and> numModesC_m s = length (filter (\<lambda>c. c \<noteq> CHR '' '') (drop (a + 2) equation))"
proof -
  obtain modeA modeB where m: "extract_modeA kMaxNumModes equation = Inr modeA"
      "extract_modeB kMaxNumModes equation = Inr modeB"
    using extract_modeA_eq extract_modeB_eq by blast
  let ?raw = "filter (\<lambda>c. c \<noteq> CHR '' '') (drop (a + 2) equation)"
  have mc: "extract_modeC kMaxNumModes equation = Inr ?raw"
    using assms(2,3) by (simp add: extract_modeC_eq c_start_def)
  have ex: "\<not> isImplicit equation" using assms(2) by (simp add: isImplicit_def)
  have arrow: "take 2 (drop a equation) = ''->''"
  proof -
    have "prefix ''->'' (drop a equation)"
      using string_find_Some[of "''->''" equation a] assms(2) by (simp add: arrow_pos_def)
    then obtain zs where "drop a equation = ''->'' @ zs" by (auto simp: prefix_def)
    then show ?thesis by simp
  qed
  show ?thesis
  proof (rule Einsum_Inr[OF assms(1) m mc], goal_cases)
    case (1 redirect)
    have red: "redirect = ?raw"
      using 1(1) ex by (simp add: redirectModeC_explicit)
    have mcm: "modesC_m s = map Some redirect @ replicate (kMaxNumModes - length redirect) None"
      using 1(13) assms(3) red by simp
    have c: "modesC s = Inr (map Some redirect)" using 1(10) mcm by (rule modesC_eq)
    show ?case using arrow c 1(10) unfolding red by (intro conjI)
  qed
qed

theorem explicit_output_verbatim_witness:
  "arrow_pos ''ij,jk-> k i'' = Some 5
   \<and> (case Einsum 2 True ''ij,jk-> k i'' [2, 3] [3, 1] [3, 4] [4, 1] of
        Inl err \<Rightarrow> False
      | Inr s \<Rightarrow> modesC s = Inr (map Some ''ki'') \<and> numModesC_m s = 2)"
proof -
  let ?s = "\<lparr>numModesA_m = 2, numModesB_m = 2, numModesC_m = 2, isInitialized_m = True,
             modesA_m = map Some ''ij'', modesB_m = map Some ''jk'', modesC_m = map Some ''ki'',
             extentA_m = [Some 2, Some 3], extentB_m = [Some 3, Some 4],
             extentC_m = [Some 4, Some 2],
             stridesA_m = [Some 3, Some 1], stridesB_m = [Some 4, Some 1],
             out_of_bounds = []\<rparr>"
  have h1: "Einsum 2 True ''ij,jk-> k i'' [2, 3] [3, 1] [3, 4] [4, 1] = Inr ?s"
    by code_simp
  have h2: "arrow_pos ''ij,jk-> k i'' = Some 5" by code_simp
  have e: "filter (\<lambda>c. c \<noteq> CHR '' '') (drop (5 + 2) ''ij,jk-> k i'') = ''ki''" by code_simp
  have h3: "length (filter (\<lambda>c. c \<noteq> CHR '' '') (drop (5 + 2) ''ij,jk-> k i'')) \<le> 2"
    unfolding e by simp
  have "modesC ?s = Inr (map Some ''ki'') \<and> numModesC_m ?s = 2"
    using explicit_output_verbatim[OF h1 h2 h3] unfolding e by (elim conjE) simp
  then show ?thesis unfolding h1 using h2 by simp
qed

text \<open>
  C6 as stated fails. Without a comma the shape of the second operand is not compared with
  anything: no mode is extracted for it, its shape has two entries, and the construction
  succeeds. And an equation with the broadcast marker is rejected for the marker, whatever
  its mode counts.
\<close>

theorem mode_shape_mismatch_counterexample:
  "extract_modeB 2 ''i'' = Inr []
   \<and> length ([] :: string) \<noteq> length [7 :: int, 8]
   \<and> Einsum 2 True ''i'' [2] [1] [7, 8] [] =
     Inr \<lparr>numModesA_m = 1, numModesB_m = 0, numModesC_m = 1, isInitialized_m = True,
           modesA_m = [Some CHR ''i'', None], modesB_m = [None, None],
           modesC_m = [Some CHR ''i'', None],
           extentA_m = [Some 2, None], extentB_m = [None, None], extentC_m = [Some 2, None],
           stridesA_m = [Some 1, None], stridesB_m = [None, None], out_of_bounds = []\<rparr>
   \<and> extract_modeA 2 ''i...'' = Inr ''i...''
   \<and> length ''i...'' \<noteq> length [2 :: int, 3]
   \<and> Einsum 2 True ''i...'' [2, 3] [3, 1] [] [] = Inl BroadcastNotSupported"
  by code_simp

text \<open>
  C6, amended. For an equation without the broadcast marker: when the number of characters
  extracted for the first operand differs from the length of \<^verbatim>\<open>A_shape\<close>, or the equation
  has a comma and the number extracted for the second operand differs from the length of
  \<^verbatim>\<open>B_shape\<close>, the constructor fails with the mismatch error of that operand (the first
  operand's, when both differ), a ParseError.
\<close>

theorem mode_shape_mismatch:
  assumes "dots equation = None"
    and "extract_modeA kMaxNumModes equation = Inr modeA"
    and "extract_modeB kMaxNumModes equation = Inr modeB"
    and "length modeA \<noteq> length A_shape
         \<or> (CHR '','' \<in> set equation \<and> length modeB \<noteq> length B_shape)"
  shows "Einsum kMaxNumModes signed_char equation A_shape A_strides B_shape B_strides
           = Inl (if length modeA \<noteq> length A_shape then ModesShapeMismatchA
                  else ModesShapeMismatchB)
         \<and> ParseError ModesShapeMismatchA \<and> ParseError ModesShapeMismatchB"
proof -
  obtain modeC where mc: "extract_modeC kMaxNumModes equation = Inr modeC"
    using extract_modeC_eq by blast
  have "Einsum kMaxNumModes signed_char equation A_shape A_strides B_shape B_strides
           = Inl (if length modeA \<noteq> length A_shape then ModesShapeMismatchA
                  else ModesShapeMismatchB)"
    using assms(1,4)
    by (subst Einsum_cases[OF assms(2,3) mc refl]) (auto simp: usesB_iff)
  then show ?thesis by (simp add: ParseError_def)
qed

theorem mode_shape_mismatch_witness:
  "Einsum 2 True ''ijk'' [2, 3] [3, 1] [] [] = Inl ModesShapeMismatchA
   \<and> Einsum 2 True ''ij,j'' [2, 3] [3, 1] [3, 4] [4, 1] = Inl ModesShapeMismatchB"
proof -
  have h: "dots ''ijk'' = None" "extract_modeA 2 ''ijk'' = Inr ''ijk''"
    "extract_modeB 2 ''ijk'' = Inr []"
    by code_simp+
  have h4: "length ''ijk'' \<noteq> length [2 :: int, 3]
         \<or> (CHR '','' \<in> set ''ijk'' \<and> length ([] :: string) \<noteq> length ([] :: int list))"
    by simp
  have g: "dots ''ij,j'' = None" "extract_modeA 2 ''ij,j'' = Inr ''ij''"
    "extract_modeB 2 ''ij,j'' = Inr ''j''"
    by code_simp+
  have g4: "length ''ij'' \<noteq> length [2 :: int, 3]
         \<or> (CHR '','' \<in> set ''ij,j'' \<and> length ''j'' \<noteq> length [3 :: int, 4])"
    by simp
  have 1: "Einsum 2 True ''ijk'' [2, 3] [3, 1] [] [] = Inl ModesShapeMismatchA"
    using mode_shape_mismatch[OF h h4, of True "[3, 1]" "[]", THEN conjunct1] by simp
  have 2: "Einsum 2 True ''ij,j'' [2, 3] [3, 1] [3, 4] [4, 1] = Inl ModesShapeMismatchB"
    using mode_shape_mismatch[OF g g4, of True "[3, 1]" "[4, 1]", THEN conjunct1] by simp
  show ?thesis using 1 2 by (rule conjI)
qed

text \<open>
  C7. Whatever the shapes and strides, an equation that contains the broadcast marker
  \<^verbatim>\<open>...\<close> is rejected with the broadcast error, which is a ParseError; since the result does
  not depend on the other arguments, nothing else is looked at first.
\<close>

theorem broadcast_rejected:
  "Einsum kMaxNumModes signed_char (xs @ ''...'' @ ys) A_shape A_strides B_shape B_strides
     = Inl BroadcastNotSupported
   \<and> ParseError BroadcastNotSupported"
proof -
  have "dots (xs @ ''...'' @ ys) \<noteq> None"
    unfolding dots_def by (rule string_find_occurs)
  then show ?thesis
    by (simp add: Einsum_def ParseError_def)
qed

theorem broadcast_rejected_witness:
  "Einsum 4 True ''ij...,jk'' [2, 3] [] [3, 4] [] = Inl BroadcastNotSupported
   \<and> ParseError BroadcastNotSupported"
  using broadcast_rejected [of 4 True "''ij''" "'',jk''" "[2, 3]" "[]" "[3, 4]" "[]"]
  by simp

text \<open>
  C8 as stated fails. The extraction loop skips the space and no other whitespace character:
  a tab between \<^verbatim>\<open>i\<close> and \<^verbatim>\<open>j\<close> is extracted as a third mode, and the construction that
  succeeds for \<^verbatim>\<open>ij\<close> fails for it. And a space inside the broadcast marker changes the
  result: \<^verbatim>\<open>...\<close> is rejected, \<^verbatim>\<open>. ..\<close> is three modes named by a dot.
\<close>

theorem whitespace_counterexample:
  "Einsum 3 True ''ij'' [2, 3] [3, 1] [] [] =
     Inr \<lparr>numModesA_m = 2, numModesB_m = 0, numModesC_m = 2, isInitialized_m = True,
           modesA_m = [Some CHR ''i'', Some CHR ''j'', None], modesB_m = [None, None, None],
           modesC_m = [Some CHR ''i'', Some CHR ''j'', None],
           extentA_m = [Some 2, Some 3, None], extentB_m = [None, None, None],
           extentC_m = [Some 2, Some 3, None],
           stridesA_m = [Some 3, Some 1, None], stridesB_m = [None, None, None], out_of_bounds = []\<rparr>
   \<and> extract_modeA 3 [CHR ''i'', CHR 0x09, CHR ''j''] = Inr [CHR ''i'', CHR 0x09, CHR ''j'']
   \<and> Einsum 3 True [CHR ''i'', CHR 0x09, CHR ''j''] [2, 3] [3, 1] [] [] = Inl ModesShapeMismatchA
   \<and> Einsum 3 True ''...'' [2, 3, 4] [12, 4, 1] [] [] = Inl BroadcastNotSupported
   \<and> Einsum 3 True ''. ..'' [2, 3, 4] [12, 4, 1] [] [] =
     Inr \<lparr>numModesA_m = 3, numModesB_m = 0, numModesC_m = 3, isInitialized_m = True,
           modesA_m = [Some CHR ''.'', Some CHR ''.'', Some CHR ''.''],
           modesB_m = [None, None, None],
           modesC_m = [Some CHR ''.'', Some CHR ''.'', Some CHR ''.''],
           extentA_m = [Some 2, Some 3, Some 4], extentB_m = [None, None, None],
           extentC_m = [Some 2, Some 2, Some 2],
           stridesA_m = [Some 12, Some 4, Some 1], stridesB_m = [None, None, None], out_of_bounds = []\<rparr>"
  by code_simp

text \<open>
  C8, amended. The space character is ignored during mode extraction: putting one space into
  an equation (or taking one out) at any place other than between the \<^verbatim>\<open>-\<close> and the \<^verbatim>\<open>>\<close> of
  its first arrow, in such a way that the broadcast marker is neither made nor broken, gives
  the same three extracted mode sequences and the same result of the construction. The
  equation is \<open>xs @ ys\<close>, the space goes between \<open>xs\<close> and \<open>ys\<close>; by \<open>dots_insert\<close> the
  condition on the marker holds whenever the equation without the space has no marker.
\<close>

theorem space_ignored:
  assumes "(dots (xs @ CHR '' '' # ys) = None) = (dots (xs @ ys) = None)"
    and "\<forall>a. arrow_pos (xs @ ys) = Some a \<longrightarrow> Suc a \<noteq> length xs"
  shows "extract_modeA kMaxNumModes (xs @ CHR '' '' # ys) = extract_modeA kMaxNumModes (xs @ ys)
       \<and> extract_modeB kMaxNumModes (xs @ CHR '' '' # ys) = extract_modeB kMaxNumModes (xs @ ys)
       \<and> extract_modeC kMaxNumModes (xs @ CHR '' '' # ys) = extract_modeC kMaxNumModes (xs @ ys)
       \<and> Einsum kMaxNumModes signed_char (xs @ CHR '' '' # ys) A_shape A_strides B_shape B_strides
          = Einsum kMaxNumModes signed_char (xs @ ys) A_shape A_strides B_shape B_strides"
proof -
  note a = extract_modeA_insert[OF assms(2), of kMaxNumModes]
  note b = extract_modeB_insert[OF assms(2), of kMaxNumModes]
  note c = extract_modeC_insert[OF assms(2), of kMaxNumModes]
  have i: "isImplicit (xs @ CHR '' '' # ys) = isImplicit (xs @ ys)"
    unfolding isImplicit_def arrow_pos_insert[OF assms(2)] by simp
  have u: "usesB (xs @ CHR '' '' # ys) = usesB (xs @ ys)"
    unfolding usesB_def comma_pos_insert by simp
  have "Einsum kMaxNumModes signed_char (xs @ CHR '' '' # ys) A_shape A_strides B_shape B_strides
          = Einsum kMaxNumModes signed_char (xs @ ys) A_shape A_strides B_shape B_strides"
    unfolding Einsum_eq a b c i u using assms(1) by simp
  with a b c show ?thesis by (intro conjI)
qed

theorem space_ignored_witness:
  "Einsum 2 True ''ij, jk->ki'' [2, 3] [3, 1] [3, 4] [4, 1]
     = Einsum 2 True ''ij,jk->ki'' [2, 3] [3, 1] [3, 4] [4, 1]
   \<and> Einsum 2 True ''ij,jk->ki'' [2, 3] [3, 1] [3, 4] [4, 1] =
     Inr \<lparr>numModesA_m = 2, numModesB_m = 2, numModesC_m = 2, isInitialized_m = True,
           modesA_m = map Some ''ij'', modesB_m = map Some ''jk'', modesC_m = map Some ''ki'',
           extentA_m = [Some 2, Some 3], extentB_m = [Some 3, Some 4],
           extentC_m = [Some 4, Some 2],
           stridesA_m = [Some 3, Some 1], stridesB_m = [Some 4, Some 1], out_of_bounds = []\<rparr>
   \<and> extract_modeB 2 ''ij, jk->ki'' = Inr ''jk''"
proof -
  have h1: "(dots (''ij,'' @ CHR '' '' # ''jk->ki'') = None) = (dots (''ij,'' @ ''jk->ki'') = None)"
    by code_simp
  have ar: "arrow_pos (''ij,'' @ ''jk->ki'') = Some 5" by code_simp
  have h2: "\<forall>a. arrow_pos (''ij,'' @ ''jk->ki'') = Some a \<longrightarrow> Suc a \<noteq> length ''ij,''"
    unfolding ar by simp
  note t = space_ignored[OF h1 h2, of 2 True "[2, 3]" "[3, 1]" "[3, 4]" "[4, 1]"]
  have 1: "Einsum 2 True ''ij, jk->ki'' [2, 3] [3, 1] [3, 4] [4, 1]
     = Einsum 2 True ''ij,jk->ki'' [2, 3] [3, 1] [3, 4] [4, 1]"
    using t[THEN conjunct2, THEN conjunct2, THEN conjunct2] by simp
  have 2: "Einsum 2 True ''ij,jk->ki'' [2, 3] [3, 1] [3, 4] [4, 1] =
     Inr \<lparr>numModesA_m = 2, numModesB_m = 2, numModesC_m = 2, isInitialized_m = True,
           modesA_m = map Some ''ij'', modesB_m = map Some ''jk'', modesC_m = map Some ''ki'',
           extentA_m = [Some 2, Some 3], extentB_m = [Some 3, Some 4],
           extentC_m = [Some 4, Some 2],
           stridesA_m = [Some 3, Some 1], stridesB_m = [Some 4, Some 1], out_of_bounds = []\<rparr>"
    by code_simp
  have e: "extract_modeB 2 ''ij,jk->ki'' = Inr ''jk''" by code_simp
  have 3: "extract_modeB 2 ''ij, jk->ki'' = Inr ''jk''"
    using t[THEN conjunct2, THEN conjunct1] e by simp
  show ?thesis using 1 2 3 by (intro conjI)
qed



text \<open>
  C10. The bound on the output modes is checked where the output is implicit, and each operand
  is checked against \<open>kMaxNumModes\<close>; the explicit output is not. Lines 206 to 210 take the
  number of characters extracted after the arrow, up to \<open>kMaxNumModes + 2\<close>, as
  \<^verbatim>\<open>numModesC_\<close>. With \<open>kMaxNumModes\<close> = 2 the implicit \<^verbatim>\<open>ij,kl\<close> and the operand \<^verbatim>\<open>ijk\<close> are
  rejected for too many modes, while for the explicit \<^verbatim>\<open>ij->iji\<close> the constructor returns
  an initialised object with three output modes, having stored past the end of its arrays
  of two cells, \<^verbatim>\<open>modesC_\<close> and \<^verbatim>\<open>extentC_\<close>, at index 2.
\<close>

theorem explicit_output_mode_count_unchecked:
  "Einsum 2 True ''ij,kl'' [2, 3] [3, 1] [4, 5] [5, 1] = Inl TooManyModesOutput
   \<and> Einsum 2 True ''ijk'' [2, 3, 4] [12, 4, 1] [] [] = Inl TooManyModesA
   \<and> \<not> isImplicit ''ij->iji''
   \<and> (case Einsum 2 True ''ij->iji'' [2, 3] [3, 1] [] [] of
        Inl err \<Rightarrow> False
      | Inr s \<Rightarrow> isInitialized_m s \<and> numModesC_m s = 3 \<and> length (modesC_m s) = 2
                 \<and> out_of_bounds s = [(''modesC_'', 2), (''extentC_'', 2)])"
  by code_simp

end
